theory Spec2Isabelle
  imports Complex_Main "HOL-Library.Sublist"
begin

section \<open>Strings of the runtime\<close>

text \<open>
  A string is the list of its code units. The development covers the code units below
  256, which is what \<^typ>\<open>char\<close> holds; the delimiter, the JSON syntax and the error
  message that the program looks for are all ASCII.
\<close>

text \<open>\<^verbatim>\<open>String.prototype.includes\<close>: some position of \<open>s\<close> starts with \<open>d\<close>.\<close>

primrec string_includes :: "string \<Rightarrow> string \<Rightarrow> bool" where
  "string_includes [] d = (d = [])"
| "string_includes (c # cs) d = (prefix d (c # cs) \<or> string_includes cs d)"

text \<open>
  \<^verbatim>\<open>String.prototype.indexOf\<close>: the least position of \<open>s\<close> that starts with \<open>d\<close>,
  and \<open>-1\<close> when there is none. \<open>indexOf_from i\<close> scans a string whose first
  code unit has position \<open>i\<close>.
\<close>

primrec indexOf_from :: "nat \<Rightarrow> string \<Rightarrow> string \<Rightarrow> int" where
  "indexOf_from i [] d = (if d = [] then int i else - 1)"
| "indexOf_from i (c # cs) d =
     (if prefix d (c # cs) then int i else indexOf_from (Suc i) cs d)"

definition indexOf :: "string \<Rightarrow> string \<Rightarrow> int" where
  "indexOf s d = indexOf_from 0 s d"

text \<open>
  \<^verbatim>\<open>String.prototype.substring\<close>: both positions are clamped to \<open>[0, length]\<close> and
  swapped when the first is the larger; with one argument the end is the length.
\<close>

definition clamp_position :: "string \<Rightarrow> int \<Rightarrow> nat" where
  "clamp_position s i = min (nat i) (length s)"

definition substring :: "string \<Rightarrow> int \<Rightarrow> int \<Rightarrow> string" where
  "substring s start finish =
     (let a = clamp_position s start; b = clamp_position s finish
      in take (max a b - min a b) (drop (min a b) s))"

definition substring_from :: "string \<Rightarrow> int \<Rightarrow> string" where
  "substring_from s start = drop (clamp_position s start) s"

text \<open>
  \<^verbatim>\<open>String.prototype.trim\<close> removes white space and line terminators from both ends.
  Below 256 these are TAB, LF, VT, FF, CR, SPACE and NBSP.
\<close>

definition is_white_space :: "char \<Rightarrow> bool" where
  "is_white_space c \<longleftrightarrow>
     of_char c \<in> {9, 10, 11, 12, 13, 32, 160 :: nat}"

definition trim :: "string \<Rightarrow> string" where
  "trim s = rev (dropWhile is_white_space (rev (dropWhile is_white_space s)))"

section \<open>\<^verbatim>\<open>JSON.parse\<close>\<close>

text \<open>
  The generator hands each candidate text to the runtime's \<^verbatim>\<open>JSON.parse\<close> and yields
  whatever value comes back. The value is kept as the parser builds it: a number as its
  literal, a string as its code units (an escape \<^verbatim>\<open>\uXXXX\<close> may denote any of
  them), an object as its members in the order of the text.
\<close>

datatype json =
    JNull
  | JBool bool
  | JNumber string
  | JString "nat list"
  | JArray "json list"
  | JObject "(nat list \<times> json) list"

text \<open>
  The text is read in two passes, each one step per item and total. The first pass walks
  over the code units and groups them into tokens; a number is collected to its end and
  then checked against the number grammar.
\<close>

datatype token = LBrace | RBrace | LBracket | RBracket | Colon | Comma | Scalar json

datatype lexer =
    Between
  | InString "nat list"
  | InEscape "nat list"
  | InUnicode "nat list" "nat list"
  | InNumber string
  | InLiteral string json

definition is_digit :: "char \<Rightarrow> bool" where
  "is_digit c \<longleftrightarrow> (48::nat) \<le> of_char c \<and> of_char c \<le> (57::nat)"

definition hex_value :: "char \<Rightarrow> nat option" where
  "hex_value c =
     (let n = of_char c :: nat
      in if 48 \<le> n \<and> n \<le> 57 then Some (n - 48)
         else if 65 \<le> n \<and> n \<le> 70 then Some (n - 55)
         else if 97 \<le> n \<and> n \<le> 102 then Some (n - 87)
         else None)"

definition escape_code :: "char \<Rightarrow> nat option" where
  "escape_code c =
     (if c = CHR 0x22 then Some 34
      else if c = CHR 0x5C then Some 92
      else if c = CHR ''/'' then Some 47
      else if c = CHR ''b'' then Some 8
      else if c = CHR ''f'' then Some 12
      else if c = CHR ''n'' then Some 10
      else if c = CHR ''r'' then Some 13
      else if c = CHR ''t'' then Some 9
      else None)"

definition is_number_char :: "char \<Rightarrow> bool" where
  "is_number_char c \<longleftrightarrow> is_digit c \<or> c \<in> set ''+-.eE''"

definition valid_exponent :: "string \<Rightarrow> bool" where
  "valid_exponent r =
     (case r of
        [] \<Rightarrow> True
      | c # r' \<Rightarrow>
          (c = CHR ''e'' \<or> c = CHR ''E'') \<and>
          (let ds = (case r' of [] \<Rightarrow> [] | s # r'' \<Rightarrow> if s = CHR ''+'' \<or> s = CHR ''-'' then r'' else r')
           in ds \<noteq> [] \<and> list_all is_digit ds))"

definition valid_fraction :: "string \<Rightarrow> bool" where
  "valid_fraction r =
     (case r of
        [] \<Rightarrow> True
      | c # r' \<Rightarrow>
          if c = CHR ''.'' then takeWhile is_digit r' \<noteq> [] \<and> valid_exponent (dropWhile is_digit r')
          else valid_exponent r)"

definition valid_number :: "string \<Rightarrow> bool" where
  "valid_number s =
     (let u = (case s of [] \<Rightarrow> [] | c # r \<Rightarrow> if c = CHR ''-'' then r else s);
          ip = takeWhile is_digit u
      in ip \<noteq> [] \<and> (if take 1 ip = ''0'' then length ip = 1 else True) \<and>
         valid_fraction (dropWhile is_digit u))"

definition idle_step :: "char \<Rightarrow> (token list \<times> lexer) option" where
  "idle_step c =
     (if c = CHR '' '' \<or> c = CHR 0x09 \<or> c = CHR 0x0A \<or> c = CHR 0x0D then Some ([], Between)
      else if c = CHR ''{'' then Some ([LBrace], Between)
      else if c = CHR ''}'' then Some ([RBrace], Between)
      else if c = CHR ''['' then Some ([LBracket], Between)
      else if c = CHR '']'' then Some ([RBracket], Between)
      else if c = CHR '':'' then Some ([Colon], Between)
      else if c = CHR '','' then Some ([Comma], Between)
      else if c = CHR 0x22 then Some ([], InString [])
      else if c = CHR ''-'' \<or> is_digit c then Some ([], InNumber [c])
      else if c = CHR ''t'' then Some ([], InLiteral ''rue'' (JBool True))
      else if c = CHR ''f'' then Some ([], InLiteral ''alse'' (JBool False))
      else if c = CHR ''n'' then Some ([], InLiteral ''ull'' JNull)
      else None)"

fun lex_step :: "lexer \<Rightarrow> char \<Rightarrow> (token list \<times> lexer) option" where
  "lex_step Between c = idle_step c"
| "lex_step (InString acc) c =
     (if c = CHR 0x22 then Some ([Scalar (JString acc)], Between)
      else if c = CHR 0x5C then Some ([], InEscape acc)
      else if (of_char c :: nat) < 32 then None
      else Some ([], InString (acc @ [of_char c])))"
| "lex_step (InEscape acc) c =
     (case escape_code c of
        Some u \<Rightarrow> Some ([], InString (acc @ [u]))
      | None \<Rightarrow> if c = CHR ''u'' then Some ([], InUnicode acc []) else None)"
| "lex_step (InUnicode acc ds) c =
     (case hex_value c of
        None \<Rightarrow> None
      | Some h \<Rightarrow>
          if length ds = 3 then Some ([], InString (acc @ [foldl (\<lambda>n d. 16 * n + d) 0 (ds @ [h])]))
          else Some ([], InUnicode acc (ds @ [h])))"
| "lex_step (InLiteral rest v) c =
     (case rest of
        [] \<Rightarrow> None
      | e # es \<Rightarrow>
          if c \<noteq> e then None
          else if es = [] then Some ([Scalar v], Between)
          else Some ([], InLiteral es v))"
| "lex_step (InNumber acc) c =
     (if is_number_char c then Some ([], InNumber (acc @ [c]))
      else if valid_number acc then
        (case idle_step c of
           None \<Rightarrow> None
         | Some (ts, l) \<Rightarrow> Some (Scalar (JNumber acc) # ts, l))
      else None)"

fun lex :: "lexer \<Rightarrow> string \<Rightarrow> token list option" where
  "lex l [] =
     (case l of
        Between \<Rightarrow> Some []
      | InNumber acc \<Rightarrow> if valid_number acc then Some [Scalar (JNumber acc)] else None
      | _ \<Rightarrow> None)"
| "lex l (c # cs) =
     (case lex_step l c of
        None \<Rightarrow> None
      | Some (ts, l') \<Rightarrow> (case lex l' cs of None \<Rightarrow> None | Some ts' \<Rightarrow> Some (ts @ ts')))"

text \<open>
  The second pass walks over the tokens with the stack of the arrays and objects that are
  open. The text is accepted when one value is complete and no token follows it.
\<close>

datatype frame = InArray "json list" | InObject "(nat list \<times> json) list" "nat list option"

datatype phase = Value | ValueOrEnd | KeyOrEnd | Key | AfterKey | AfterValue | Done json

fun deliver :: "json \<Rightarrow> frame list \<Rightarrow> (phase \<times> frame list) option" where
  "deliver v [] = Some (Done v, [])"
| "deliver v (InArray vs # st) = Some (AfterValue, InArray (vs @ [v]) # st)"
| "deliver v (InObject ps (Some k) # st) = Some (AfterValue, InObject (ps @ [(k, v)]) None # st)"
| "deliver v (InObject ps None # st) = None"

fun begin_value :: "token \<Rightarrow> frame list \<Rightarrow> (phase \<times> frame list) option" where
  "begin_value (Scalar v) st = deliver v st"
| "begin_value LBracket st = Some (ValueOrEnd, InArray [] # st)"
| "begin_value LBrace st = Some (KeyOrEnd, InObject [] None # st)"
| "begin_value _ st = None"

fun begin_key :: "token \<Rightarrow> frame list \<Rightarrow> (phase \<times> frame list) option" where
  "begin_key (Scalar (JString k)) (InObject ps None # st) = Some (AfterKey, InObject ps (Some k) # st)"
| "begin_key _ _ = None"

fun end_container :: "token \<Rightarrow> frame list \<Rightarrow> (phase \<times> frame list) option" where
  "end_container RBracket (InArray vs # st) = deliver (JArray vs) st"
| "end_container RBrace (InObject ps None # st) = deliver (JObject ps) st"
| "end_container _ _ = None"

fun parse_step :: "phase \<Rightarrow> frame list \<Rightarrow> token \<Rightarrow> (phase \<times> frame list) option" where
  "parse_step Value st t = begin_value t st"
| "parse_step ValueOrEnd st t = (if t = RBracket then end_container t st else begin_value t st)"
| "parse_step KeyOrEnd st t = (if t = RBrace then end_container t st else begin_key t st)"
| "parse_step Key st t = begin_key t st"
| "parse_step AfterKey st t = (if t = Colon then Some (Value, st) else None)"
| "parse_step AfterValue st t =
     (if t = Comma then
        (case st of
           [] \<Rightarrow> None
         | InArray vs # _ \<Rightarrow> Some (Value, st)
         | InObject ps k # _ \<Rightarrow> Some (Key, st))
      else end_container t st)"
| "parse_step (Done v) st t = None"

fun parse_tokens :: "phase \<Rightarrow> frame list \<Rightarrow> token list \<Rightarrow> json option" where
  "parse_tokens p st [] = (case p of Done v \<Rightarrow> Some v | _ \<Rightarrow> None)"
| "parse_tokens p st (t # ts) =
     (case parse_step p st t of
        None \<Rightarrow> None
      | Some (p', st') \<Rightarrow> parse_tokens p' st' ts)"

text \<open>\<open>None\<close> is the \<^verbatim>\<open>SyntaxError\<close> that \<^verbatim>\<open>JSON.parse\<close> throws.\<close>

definition JSON_parse :: "string \<Rightarrow> json option" where
  "JSON_parse s = (case lex Between s of None \<Rightarrow> None | Some ts \<Rightarrow> parse_tokens Value [] ts)"

section \<open>The record type\<close>

text \<open>
  \<^verbatim>\<open>interface QuizQuestion\<close> asks for four members and allows a fifth. Reading a
  member of an object whose text repeats a name gives the last one.
\<close>

definition code_units :: "string \<Rightarrow> nat list" where
  "code_units s = map of_char s"

definition get_property :: "json \<Rightarrow> string \<Rightarrow> json option" where
  "get_property v name =
     (case v of JObject members \<Rightarrow> map_of (rev members) (code_units name) | _ \<Rightarrow> None)"

definition is_string :: "json \<Rightarrow> bool" where
  "is_string v = (case v of JString _ \<Rightarrow> True | _ \<Rightarrow> False)"

definition is_string_array :: "json \<Rightarrow> bool" where
  "is_string_array v = (case v of JArray vs \<Rightarrow> list_all is_string vs | _ \<Rightarrow> False)"

definition has_required_fields :: "json \<Rightarrow> bool" where
  "has_required_fields v \<longleftrightarrow>
     get_property v ''question'' \<noteq> None \<and> get_property v ''options'' \<noteq> None \<and>
     get_property v ''correctAnswer'' \<noteq> None \<and> get_property v ''explanation'' \<noteq> None"

definition is_QuizQuestion :: "json \<Rightarrow> bool" where
  "is_QuizQuestion v \<longleftrightarrow>
     (case get_property v ''question'' of Some q \<Rightarrow> is_string q | None \<Rightarrow> False) \<and>
     (case get_property v ''code_snippet'' of Some c \<Rightarrow> is_string c | None \<Rightarrow> True) \<and>
     (case get_property v ''options'' of Some os \<Rightarrow> is_string_array os | None \<Rightarrow> False) \<and>
     (case get_property v ''correctAnswer'' of Some a \<Rightarrow> is_string a | None \<Rightarrow> False) \<and>
     (case get_property v ''explanation'' of Some e \<Rightarrow> is_string e | None \<Rightarrow> False)"

section \<open>The streaming parser\<close>

definition DELIMITER :: string where
  "DELIMITER = ''---QML_QUIZ_DELIMITER---''"

text \<open>
  What a run of the generator does, in order: a chunk arrives from the stream, the buffer
  is assigned (after an append, after a split), \<^verbatim>\<open>JSON.parse\<close> is called on a text,
  a record is yielded, a failure is written to the console.
\<close>

datatype 'q event =
    Chunk string
  | Appended string
  | Split string
  | Parse string
  | Yield 'q
  | ConsoleError string

text \<open>The generator ends by returning or by throwing what the stream threw.\<close>

datatype 'e completion = Returned | Threw 'e

text \<open>
  The upstream source: the texts of the chunks it delivers (\<^verbatim>\<open>chunk.text\<close>), then
  the end of the stream or a failure. A failure of the request itself is a failure before
  the first chunk.
\<close>

record 'e upstream =
  chunks :: "string list"
  failure :: "'e option"

text \<open>
  The inner loop \<^verbatim>\<open>while (buffer.includes(DELIMITER))\<close>. \<open>parse\<close> stands for
  \<^verbatim>\<open>JSON.parse\<close>, with \<open>None\<close> when it throws. The result is the events of the
  loop and the buffer it leaves.
\<close>

function while_includes :: "(string \<Rightarrow> 'q option) \<Rightarrow> string \<Rightarrow> 'q event list \<times> string" where
  "while_includes parse buffer =
     (if string_includes buffer DELIMITER then
        (let delimiterIndex = indexOf buffer DELIMITER;
             jsonString = trim (substring buffer 0 delimiterIndex);
             buffer' = substring_from buffer (delimiterIndex + int (length DELIMITER));
             attempt =
               (if jsonString \<noteq> [] then
                  Parse jsonString #
                  (case parse jsonString of
                     Some question \<Rightarrow> [Yield question]
                   | None \<Rightarrow> [ConsoleError jsonString])
                else []);
             (rest, final) = while_includes parse buffer'
         in (Split buffer' # attempt @ rest, final))
      else ([], buffer))"
  by pat_completeness auto

termination while_includes
proof (relation "measure (\<lambda>(parse, buffer). length buffer)", goal_cases)
  case 1
  show ?case by simp
next
  case (2 parse buffer delimiterIndex jsonString buffer')
  have shorter: "string_includes s d \<Longrightarrow> length d \<le> length s" for s d
    by (induction s) (auto dest: prefix_length_le)
  have lower: "indexOf_from i s d = - 1 \<or> int i \<le> indexOf_from i s d" for i s d
    by (induction s arbitrary: i) (auto, force)
  from 2(1) have "length DELIMITER \<le> length buffer"
    by (rule shorter)
  moreover have "0 < length DELIMITER"
    by (simp add: DELIMITER_def)
  moreover have "delimiterIndex = - 1 \<or> 0 \<le> delimiterIndex"
    using lower [of 0 buffer DELIMITER] 2(2) by (simp add: indexOf_def)
  ultimately show ?case
    using 2(4) by (auto simp: substring_from_def clamp_position_def DELIMITER_def)
qed

text \<open>
  The outer loop \<^verbatim>\<open>for await (const chunk of stream)\<close> over the chunks that arrive:
  the chunk's text is appended to the buffer and the inner loop runs on it.
\<close>

fun for_await :: "(string \<Rightarrow> 'q option) \<Rightarrow> string \<Rightarrow> string list \<Rightarrow> 'q event list \<times> string" where
  "for_await parse buffer [] = ([], buffer)"
| "for_await parse buffer (chunk # stream) =
     (let buffer1 = buffer @ chunk;
          (inner, buffer2) = while_includes parse buffer1;
          (rest, final) = for_await parse buffer2 stream
      in (Chunk chunk # Appended buffer1 # inner @ rest, final))"

text \<open>
  \<^verbatim>\<open>generateQuizQuestionsStream\<close>: the buffer starts empty; a failure of the stream
  leaves the function at once, so what remains in the buffer is looked at only when the
  stream ends normally.
\<close>

definition generateQuizQuestionsStream ::
  "(string \<Rightarrow> 'q option) \<Rightarrow> 'e upstream \<Rightarrow> 'q event list \<times> 'e completion" where
  "generateQuizQuestionsStream parse stream =
     (let (evs, buffer) = for_await parse [] (chunks stream)
      in case failure stream of
           Some err \<Rightarrow> (evs, Threw err)
         | None \<Rightarrow>
             (evs @
              (if trim buffer \<noteq> [] then
                 Parse (trim buffer) #
                 (case parse (trim buffer) of
                    Some question \<Rightarrow> [Yield question]
                  | None \<Rightarrow> [ConsoleError (trim buffer)])
               else []),
              Returned))"

text \<open>The records a run yields, and the texts it calls the parser on, in order.\<close>

fun yields :: "'q event list \<Rightarrow> 'q list" where
  "yields [] = []"
| "yields (Yield q # evs) = q # yields evs"
| "yields (_ # evs) = yields evs"

fun parse_attempts :: "'q event list \<Rightarrow> string list" where
  "parse_attempts [] = []"
| "parse_attempts (Parse s # evs) = s # parse_attempts evs"
| "parse_attempts (_ # evs) = parse_attempts evs"

fun console_errors :: "'q event list \<Rightarrow> string list" where
  "console_errors [] = []"
| "console_errors (ConsoleError s # evs) = s # console_errors evs"
| "console_errors (_ # evs) = console_errors evs"

section \<open>Segments of a text\<close>

text \<open>
  A segment is a text that no delimiter begins in: when the delimiter follows it, the
  first delimiter of the two together is the one that follows.
\<close>

definition segment :: "string \<Rightarrow> bool" where
  "segment s \<longleftrightarrow> indexOf (s @ DELIMITER) DELIMITER = int (length s)"

text \<open>
  A text is delimited into segments, each followed by the delimiter, and a trailing text
  that contains no delimiter.
\<close>

definition delimited :: "string list \<Rightarrow> string \<Rightarrow> string \<Rightarrow> bool" where
  "delimited segs trailing whole \<longleftrightarrow>
     whole = concat (map (\<lambda>s. s @ DELIMITER) segs) @ trailing \<and>
     list_all segment segs \<and> \<not> string_includes trailing DELIMITER"

text \<open>
  What the generator does with one candidate, inside the loop and after it: nothing when
  the trimmed text is empty, else one call of the parser and a yield or a console error.
\<close>

definition candidate :: "(string \<Rightarrow> 'q option) \<Rightarrow> string \<Rightarrow> 'q event list" where
  "candidate parse s =
     (if trim s \<noteq> [] then
        Parse (trim s) #
        (case parse (trim s) of Some question \<Rightarrow> [Yield question] | None \<Rightarrow> [ConsoleError (trim s)])
      else [])"

text \<open>The events other than the arrival of a chunk and the assignments of the buffer.\<close>

fun observable :: "'q event \<Rightarrow> bool" where
  "observable (Parse s) = True"
| "observable (Yield q) = True"
| "observable (ConsoleError s) = True"
| "observable _ = False"

definition effects :: "'q event list \<Rightarrow> 'q event list" where
  "effects evs = filter observable evs"

section \<open>The buffer during a run\<close>

text \<open>
  Read off a run: the text received so far (the chunks that arrived), the number of
  splits so far, and the value an event assigns to the buffer.
\<close>

fun received :: "'q event list \<Rightarrow> string" where
  "received [] = []"
| "received (Chunk c # evs) = c @ received evs"
| "received (_ # evs) = received evs"

fun splits :: "'q event list \<Rightarrow> nat" where
  "splits [] = 0"
| "splits (Split b # evs) = Suc (splits evs)"
| "splits (_ # evs) = splits evs"

fun buffer_of :: "'q event \<Rightarrow> string option" where
  "buffer_of (Appended b) = Some b"
| "buffer_of (Split b) = Some b"
| "buffer_of _ = None"

text \<open>
  Replaying a run from a received text \<open>r\<close> and \<open>n\<close> splits: every assignment of
  the buffer with the text received and the splits made when it happens.
\<close>

fun snapshots :: "string \<Rightarrow> nat \<Rightarrow> 'q event list \<Rightarrow> (string \<times> nat \<times> string) list" where
  "snapshots r n [] = []"
| "snapshots r n (Chunk c # evs) = snapshots (r @ c) n evs"
| "snapshots r n (Appended b # evs) = (r, n, b) # snapshots r n evs"
| "snapshots r n (Split b # evs) = (r, Suc n, b) # snapshots r (Suc n) evs"
| "snapshots r n (_ # evs) = snapshots r n evs"

text \<open>
  \<open>b\<close> is what is left of \<open>r\<close> when \<open>n\<close> segments, each with its delimiter,
  are taken from its front.
\<close>

definition unconsumed :: "string \<Rightarrow> nat \<Rightarrow> string \<Rightarrow> bool" where
  "unconsumed r n b \<longleftrightarrow>
     (\<exists>segs. length segs = n \<and> list_all segment segs \<and>
             r = concat (map (\<lambda>s. s @ DELIMITER) segs) @ b)"

section \<open>The application\<close>

text \<open>The record type as the interface declares it, for the components that show a question.\<close>

record QuizQuestion =
  question :: string
  code_snippet :: "string option"
  options :: "string list"
  correctAnswer :: string
  explanation :: string

text \<open>
  The state of the \<^verbatim>\<open>App\<close> component. The list of questions holds whatever the
  generator yields.
\<close>

datatype QuizState = Idle | Loading | Active | Finished | Error

record 'q App =
  quizState :: QuizState
  questions :: "'q list"
  currentQuestionIndex :: nat
  score :: nat
  error :: "string option"
  isKeySet :: bool
  isCheckingKey :: bool

text \<open>
  What the stream may throw: an instance of \<^verbatim>\<open>Error\<close> with its message, or some
  other value.
\<close>

datatype thrown = ErrorInstance string | OtherValue

definition errorMessage :: "thrown \<Rightarrow> string" where
  "errorMessage err =
     (case err of ErrorInstance message \<Rightarrow> message | OtherValue \<Rightarrow> ''An unknown error occurred.'')"

text \<open>
  The \<^verbatim>\<open>catch\<close> block of \<^verbatim>\<open>startQuiz\<close>, and \<^verbatim>\<open>startQuiz\<close>: the state is reset,
  every record the generator yields is appended to the questions, and what the generator
  throws goes to the \<^verbatim>\<open>catch\<close> block. The run is taken on its own, with no click and no
  timer in between.
\<close>

definition startQuiz_catch :: "thrown \<Rightarrow> 'q App \<Rightarrow> 'q App" where
  "startQuiz_catch err st =
     (if string_includes (errorMessage err) ''API key not valid'' then
        st\<lparr>error := Some ''Your API key appears to be invalid. Please select a new one to continue.'',
           isKeySet := False,
           quizState := Idle\<rparr>
      else st\<lparr>error := Some (errorMessage err), quizState := Error\<rparr>)"

definition startQuiz :: "(string \<Rightarrow> 'q option) \<Rightarrow> thrown upstream \<Rightarrow> 'q App \<Rightarrow> 'q App" where
  "startQuiz parse stream st =
     (let st1 = st\<lparr>quizState := Loading, questions := [], currentQuestionIndex := 0,
                   score := 0, error := None\<rparr>;
          (evs, outcome) = generateQuizQuestionsStream parse stream;
          st2 = foldl (\<lambda>s q. s\<lparr>questions := questions s @ [q]\<rparr>) st1 (yields evs)
      in case outcome of Returned \<Rightarrow> st2 | Threw err \<Rightarrow> startQuiz_catch err st2)"

text \<open>What \<^verbatim>\<open>renderContent\<close> shows, with the values each view is given.\<close>

datatype view =
    Verifying
  | ApiKeySetup "string option"
  | StartScreen
  | LoadingScreen nat
  | Nothing
  | QuizCardView nat
  | ScoreSummaryView nat nat
  | ErrorScreen "string option"

definition renderContent :: "'q App \<Rightarrow> view" where
  "renderContent st =
     (if isCheckingKey st then Verifying
      else if \<not> isKeySet st then ApiKeySetup (error st)
      else case quizState st of
             Idle \<Rightarrow> StartScreen
           | Loading \<Rightarrow> LoadingScreen (length (questions st))
           | Active \<Rightarrow> if length (questions st) = 0 then Nothing
                       else QuizCardView (currentQuestionIndex st)
           | Finished \<Rightarrow> ScoreSummaryView (score st) (length (questions st))
           | Error \<Rightarrow> ErrorScreen (error st))"

section \<open>The quiz card\<close>

text \<open>
  The state of a \<^verbatim>\<open>QuizCard\<close>, as it is when the card is mounted, and its click
  handler, which returns the new state and the argument of the \<^verbatim>\<open>onAnswer\<close> call it
  makes, if it makes one.
\<close>

record Card =
  selectedOption :: "string option"
  isAnswered :: bool

definition mounted :: Card where
  "mounted = \<lparr>selectedOption = None, isAnswered = False\<rparr>"

definition handleOptionClick :: "QuizQuestion \<Rightarrow> string \<Rightarrow> Card \<Rightarrow> Card \<times> bool option" where
  "handleOptionClick q option crd =
     (if isAnswered crd then (crd, None)
      else let isCorrect = (option = correctAnswer q)
           in (crd\<lparr>selectedOption := Some option, isAnswered := True\<rparr>, Some isCorrect))"

text \<open>The two callbacks that \<^verbatim>\<open>App\<close> gives the card.\<close>

definition handleAnswer :: "bool \<Rightarrow> 'q App \<Rightarrow> 'q App" where
  "handleAnswer isCorrect st = (if isCorrect then st\<lparr>score := score st + 1\<rparr> else st)"

definition handleNext :: "'q App \<Rightarrow> 'q App" where
  "handleNext st =
     (if int (currentQuestionIndex st) < int (length (questions st)) - 1
      then st\<lparr>currentQuestionIndex := currentQuestionIndex st + 1\<rparr>
      else st\<lparr>quizState := Finished\<rparr>)"

text \<open>
  What happens while a quiz runs: a click on an option, a click on the \<^verbatim>\<open>Next\<close>
  button, the arrival of a record from the generator. A card is there to click on when
  \<^verbatim>\<open>renderContent\<close> shows it and the current index has a question (without one the
  card cannot render). Its \<^verbatim>\<open>Next\<close> button is disabled until the question is
  answered. The card is keyed by the index, so a new index mounts a new card.
\<close>

datatype ui_event = OptionClick string | NextClick | QuestionArrived QuizQuestion

definition card_displayed :: "'q App \<Rightarrow> bool" where
  "card_displayed st \<longleftrightarrow>
     renderContent st = QuizCardView (currentQuestionIndex st) \<and>
     currentQuestionIndex st < length (questions st)"

fun ui_step :: "ui_event \<Rightarrow> QuizQuestion App \<times> Card \<Rightarrow> (QuizQuestion App \<times> Card) \<times> bool option" where
  "ui_step (OptionClick option) (st, crd) =
     (if card_displayed st then
        (case handleOptionClick (questions st ! currentQuestionIndex st) option crd of
           (crd', Some isCorrect) \<Rightarrow> ((handleAnswer isCorrect st, crd'), Some isCorrect)
         | (crd', None) \<Rightarrow> ((st, crd'), None))
      else ((st, crd), None))"
| "ui_step NextClick (st, crd) =
     (if card_displayed st \<and> isAnswered crd then
        (let st' = handleNext st
         in ((st', if currentQuestionIndex st' = currentQuestionIndex st then crd else mounted), None))
      else ((st, crd), None))"
| "ui_step (QuestionArrived q) (st, crd) = ((st\<lparr>questions := questions st @ [q]\<rparr>, crd), None)"

text \<open>A run of events, with the \<^verbatim>\<open>onAnswer\<close> calls it makes, in order.\<close>

fun ui_run :: "ui_event list \<Rightarrow> QuizQuestion App \<times> Card \<Rightarrow> (QuizQuestion App \<times> Card) \<times> bool list" where
  "ui_run [] s = (s, [])"
| "ui_run (e # es) s =
     (case ui_step e s of
        (s', call) \<Rightarrow>
          (case ui_run es s' of
             (s'', calls) \<Rightarrow> (s'', (case call of Some c \<Rightarrow> [c] | None \<Rightarrow> []) @ calls)))"

fun is_option_click :: "ui_event \<Rightarrow> bool" where
  "is_option_click (OptionClick option) = True"
| "is_option_click _ = False"

text \<open>
  The number of questions answered: those before the current one, and the current one
  when its card is answered.
\<close>

definition answered_count :: "QuizQuestion App \<times> Card \<Rightarrow> nat" where
  "answered_count s = currentQuestionIndex (fst s) + (if isAnswered (snd s) then 1 else 0)"

section \<open>Percentages\<close>

text \<open>
  A number of the runtime is a finite double, taken as the real it denotes, or one of the
  three values that are not finite. The division and the multiplication of doubles and
  \<^verbatim>\<open>Math.round\<close> are parameters of the two computations: what follows holds however
  they round, and whatever the division gives for a zero divisor.
\<close>

datatype number = Finite real | NaN | PositiveInfinity | NegativeInfinity

definition greater_than_zero :: "number \<Rightarrow> bool" where
  "greater_than_zero n = (case n of Finite x \<Rightarrow> 0 < x | PositiveInfinity \<Rightarrow> True | _ \<Rightarrow> False)"

definition ProgressBar_percentage ::
  "(number \<Rightarrow> number \<Rightarrow> number) \<Rightarrow> (number \<Rightarrow> number \<Rightarrow> number) \<Rightarrow> number \<Rightarrow> number \<Rightarrow> number" where
  "ProgressBar_percentage fdiv fmul val max' =
     (if greater_than_zero max' then fmul (fdiv val max') (Finite 100) else Finite 0)"

definition ScoreSummary_percentage ::
  "(number \<Rightarrow> number \<Rightarrow> number) \<Rightarrow> (number \<Rightarrow> number \<Rightarrow> number) \<Rightarrow> (number \<Rightarrow> number) \<Rightarrow>
   number \<Rightarrow> number \<Rightarrow> number" where
  "ScoreSummary_percentage fdiv fmul fround score' total' =
     (if greater_than_zero total' then fround (fmul (fdiv score' total') (Finite 100)) else Finite 0)"

text \<open>Arithmetic without rounding, to run the two computations on.\<close>

definition exact_divide :: "number \<Rightarrow> number \<Rightarrow> number" where
  "exact_divide a b =
     (case (a, b) of (Finite x, Finite y) \<Rightarrow> if y = 0 then NaN else Finite (x / y) | _ \<Rightarrow> NaN)"

definition exact_times :: "number \<Rightarrow> number \<Rightarrow> number" where
  "exact_times a b = (case (a, b) of (Finite x, Finite y) \<Rightarrow> Finite (x * y) | _ \<Rightarrow> NaN)"

definition Math_round :: "number \<Rightarrow> number" where
  "Math_round a = (case a of Finite x \<Rightarrow> Finite (of_int \<lfloor>x + 1 / 2\<rfloor>) | _ \<Rightarrow> a)"

section \<open>Searching and splitting\<close>

lemma string_includes_length: "string_includes s d \<Longrightarrow> length d \<le> length s"
  by (induction s) (auto dest: prefix_length_le)

lemma indexOf_from_lower: "indexOf_from i s d = - 1 \<or> int i \<le> indexOf_from i s d"
  by (induction s arbitrary: i) (auto, force)

lemma string_includes_iff: "string_includes s d \<longleftrightarrow> (\<exists>j\<le>length s. prefix d (drop j s))"
proof (induction s)
  case Nil
  then show ?case by simp
next
  case (Cons c cs)
  show ?case
  proof
    assume "string_includes (c # cs) d"
    then consider "prefix d (c # cs)" | "string_includes cs d" by auto
    then show "\<exists>j\<le>length (c # cs). prefix d (drop j (c # cs))"
    proof cases
      case 1
      then have "prefix d (drop 0 (c # cs))" by simp
      then show ?thesis by blast
    next
      case 2
      with Cons obtain j where "j \<le> length cs" "prefix d (drop j cs)" by blast
      then have "Suc j \<le> length (c # cs) \<and> prefix d (drop (Suc j) (c # cs))" by simp
      then show ?thesis by blast
    qed
  next
    assume "\<exists>j\<le>length (c # cs). prefix d (drop j (c # cs))"
    then obtain j where j: "j \<le> length (c # cs)" "prefix d (drop j (c # cs))" by blast
    show "string_includes (c # cs) d"
    proof (cases j)
      case 0
      with j show ?thesis by simp
    next
      case (Suc k)
      with j have "k \<le> length cs \<and> prefix d (drop k cs)" by simp
      with Cons show ?thesis by auto
    qed
  qed
qed

lemma indexOf_from_eq:
  "indexOf_from i s d = int (i + j) \<longleftrightarrow>
     (j \<le> length s \<and> prefix d (drop j s) \<and> (\<forall>k<j. \<not> prefix d (drop k s)))"
proof (induction s arbitrary: i j)
  case Nil
  then show ?case by auto
next
  case (Cons c cs)
  show ?case
  proof (cases "prefix d (c # cs)")
    case True
    then show ?thesis by (cases j) auto
  next
    case False
    show ?thesis
    proof (cases j)
      case 0
      with False indexOf_from_lower [of "Suc i" cs d] show ?thesis by auto
    next
      case (Suc j')
      have "indexOf_from (Suc i) cs d = int (Suc i + j') \<longleftrightarrow>
         (j' \<le> length cs \<and> prefix d (drop j' cs) \<and> (\<forall>k<j'. \<not> prefix d (drop k cs)))"
        by (rule Cons.IH)
      moreover have "(\<forall>k<Suc j'. \<not> prefix d (drop k (c # cs))) \<longleftrightarrow> (\<forall>k<j'. \<not> prefix d (drop k cs))"
        using False by (auto simp: less_Suc_eq_0_disj)
      ultimately show ?thesis using False Suc by simp
    qed
  qed
qed

lemma indexOf_eq:
  "indexOf s d = int j \<longleftrightarrow>
     (j \<le> length s \<and> prefix d (drop j s) \<and> (\<forall>k<j. \<not> prefix d (drop k s)))"
  using indexOf_from_eq [of 0 s d j] by (simp add: indexOf_def)

declare while_includes.simps [simp del]

lemma prefix_append_long: "length d \<le> length x \<Longrightarrow> prefix d (x @ y) \<longleftrightarrow> prefix d x"
  by (auto simp: prefix_append)

lemma segment_iff: "segment s \<longleftrightarrow> (\<forall>k<length s. \<not> prefix DELIMITER (drop k (s @ DELIMITER)))"
  by (simp add: segment_def indexOf_eq)

lemma segment_indexOf:
  assumes "segment pre"
  shows "indexOf (pre @ DELIMITER @ rest) DELIMITER = int (length pre)"
proof -
  have "\<not> prefix DELIMITER (drop k (pre @ DELIMITER @ rest))" if "k < length pre" for k
  proof -
    have "drop k (pre @ DELIMITER @ rest) = drop k (pre @ DELIMITER) @ rest"
      using that by simp
    moreover have "length DELIMITER \<le> length (drop k (pre @ DELIMITER))"
      using that by simp
    ultimately show ?thesis
      using assms that by (simp only: prefix_append_long segment_iff) blast
  qed
  then show ?thesis
    by (simp add: indexOf_eq)
qed

lemma includes_delimited: "string_includes (pre @ DELIMITER @ rest) DELIMITER"
proof -
  have "prefix DELIMITER (drop (length pre) (pre @ DELIMITER @ rest))" by simp
  moreover have "length pre \<le> length (pre @ DELIMITER @ rest)" by simp
  ultimately show ?thesis unfolding string_includes_iff by blast
qed

lemma first_delimiter:
  assumes "string_includes b DELIMITER"
  obtains pre rest where "b = pre @ DELIMITER @ rest" "segment pre"
proof -
  define P where "P j \<longleftrightarrow> j \<le> length b \<and> prefix DELIMITER (drop j b)" for j
  from assms have "\<exists>j. P j" by (auto simp: string_includes_iff P_def)
  then obtain j where j: "P j" "\<forall>k<j. \<not> P k"
    by (auto simp: exists_least_iff [of P])
  from j(1) obtain rest where rest: "drop j b = DELIMITER @ rest"
    by (auto simp: P_def prefix_def)
  define pre where "pre = take j b"
  have b: "b = pre @ DELIMITER @ rest"
    using rest by (metis append_take_drop_id pre_def)
  have len: "length pre = j" using j(1) by (simp add: pre_def P_def)
  have "\<not> prefix DELIMITER (drop k (pre @ DELIMITER))" if "k < length pre" for k
  proof
    assume "prefix DELIMITER (drop k (pre @ DELIMITER))"
    then have "prefix DELIMITER (drop k (pre @ DELIMITER) @ rest)"
      by (rule prefix_prefix)
    then have "prefix DELIMITER (drop k b)" using that by (simp add: b)
    moreover have "k \<le> length b" using that by (simp add: b)
    ultimately have "P k" by (simp add: P_def)
    with j(2) that len show False by simp
  qed
  then have "segment pre" by (simp add: segment_iff)
  with b that show thesis by blast
qed

lemma while_includes_delimiter:
  assumes "segment pre"
  shows "while_includes parse (pre @ DELIMITER @ rest) =
           (Split rest # candidate parse pre @ fst (while_includes parse rest),
            snd (while_includes parse rest))"
proof -
  have i: "indexOf (pre @ DELIMITER @ rest) DELIMITER = int (length pre)"
    using assms by (rule segment_indexOf)
  have 1: "substring (pre @ DELIMITER @ rest) 0 (int (length pre)) = pre"
    by (simp add: substring_def clamp_position_def)
  have 2: "substring_from (pre @ DELIMITER @ rest) (int (length pre) + int (length DELIMITER)) = rest"
    by (simp add: substring_from_def clamp_position_def nat_add_distrib)
  show ?thesis
    by (subst while_includes.simps)
      (simp only: includes_delimited i 1 2 if_True Let_def candidate_def split_beta)
qed

lemma while_includes_none:
  "\<not> string_includes b DELIMITER \<Longrightarrow> while_includes parse b = ([], b)"
  by (subst while_includes.simps) simp

lemma effects_append [simp]: "effects (xs @ ys) = effects xs @ effects ys"
  by (simp add: effects_def)

lemma effects_Nil [simp]: "effects [] = []"
  by (simp add: effects_def)

lemma effects_Cons [simp]: "effects (e # evs) = (if observable e then e # effects evs else effects evs)"
  by (simp add: effects_def)

lemma effects_candidate [simp]: "effects (candidate parse s) = candidate parse s"
  by (simp add: candidate_def split: option.splits)

lemma while_includes_final: "\<not> string_includes (snd (while_includes parse b)) DELIMITER"
proof (induction "length b" arbitrary: b rule: less_induct)
  case less
  show ?case
  proof (cases "string_includes b DELIMITER")
    case True
    then obtain pre rest where b: "b = pre @ DELIMITER @ rest" and seg: "segment pre"
      by (rule first_delimiter)
    have "length rest < length b" by (simp add: b DELIMITER_def)
    then have "\<not> string_includes (snd (while_includes parse rest)) DELIMITER"
      by (rule less)
    then show ?thesis by (simp add: b while_includes_delimiter [OF seg])
  next
    case False
    then show ?thesis by (simp add: while_includes_none)
  qed
qed

lemma while_includes_append:
  "effects (fst (while_includes parse (x @ y))) =
     effects (fst (while_includes parse x)) @
     effects (fst (while_includes parse (snd (while_includes parse x) @ y))) \<and>
   snd (while_includes parse (x @ y)) =
     snd (while_includes parse (snd (while_includes parse x) @ y))"
proof (induction "length x" arbitrary: x rule: less_induct)
  case less
  show ?case
  proof (cases "string_includes x DELIMITER")
    case True
    then obtain pre rest where x: "x = pre @ DELIMITER @ rest" and seg: "segment pre"
      by (rule first_delimiter)
    have "length rest < length x" by (simp add: x DELIMITER_def)
    note IH = less [OF this]
    have xy: "x @ y = pre @ DELIMITER @ (rest @ y)" by (simp add: x)
    show ?thesis
      unfolding xy unfolding x
      by (simp add: while_includes_delimiter [OF seg] IH)
  next
    case False
    then show ?thesis by (simp add: while_includes_none)
  qed
qed

lemma for_await_batch:
  "\<not> string_includes b DELIMITER \<Longrightarrow>
   effects (fst (for_await parse b cs)) = effects (fst (while_includes parse (b @ concat cs))) \<and>
   snd (for_await parse b cs) = snd (while_includes parse (b @ concat cs))"
proof (induction cs arbitrary: b)
  case Nil
  then show ?case by (simp add: while_includes_none)
next
  case (Cons c cs)
  define b2 where "b2 = snd (while_includes parse (b @ c))"
  have "\<not> string_includes b2 DELIMITER"
    unfolding b2_def by (rule while_includes_final)
  note IH = Cons.IH [OF this]
  have "effects (fst (for_await parse b (c # cs))) =
          effects (fst (while_includes parse (b @ c))) @ effects (fst (for_await parse b2 cs))"
    by (simp add: split_beta Let_def b2_def)
  moreover have "snd (for_await parse b (c # cs)) = snd (for_await parse b2 cs)"
    by (simp add: split_beta Let_def b2_def)
  moreover note while_includes_append [of parse "b @ c" "concat cs"]
  ultimately show ?case using IH by (simp add: b2_def)
qed

lemma while_includes_delimited:
  "list_all segment segs \<Longrightarrow> \<not> string_includes trailing DELIMITER \<Longrightarrow>
   effects (fst (while_includes parse (concat (map (\<lambda>s. s @ DELIMITER) segs) @ trailing))) =
     concat (map (candidate parse) segs) \<and>
   snd (while_includes parse (concat (map (\<lambda>s. s @ DELIMITER) segs) @ trailing)) = trailing"
proof (induction segs)
  case Nil
  then show ?case by (simp add: while_includes_none)
next
  case (Cons s segs)
  then have seg: "segment s" by simp
  show ?case
    using Cons by (simp add: while_includes_delimiter [OF seg])
qed

lemma not_includes_Nil: "\<not> string_includes [] DELIMITER"
  by (simp add: DELIMITER_def)

lemma generate_effects:
  assumes "delimited segs trailing (concat (chunks stream))" and "failure stream = None"
  shows "effects (fst (generateQuizQuestionsStream parse stream)) =
           concat (map (candidate parse) (segs @ [trailing]))"
    and "snd (generateQuizQuestionsStream parse stream) = Returned"
proof -
  from assms(1) have whole: "concat (chunks stream) = concat (map (\<lambda>s. s @ DELIMITER) segs) @ trailing"
    and segs: "list_all segment segs" and tr: "\<not> string_includes trailing DELIMITER"
    by (simp_all add: delimited_def)
  have fa: "effects (fst (for_await parse [] (chunks stream))) = concat (map (candidate parse) segs)"
    "snd (for_await parse [] (chunks stream)) = trailing"
    using for_await_batch [OF not_includes_Nil, of parse "chunks stream"]
      while_includes_delimited [OF segs tr, of parse]
    by (simp_all add: whole)
  have gen: "generateQuizQuestionsStream parse stream =
     (fst (for_await parse [] (chunks stream)) @ candidate parse (snd (for_await parse [] (chunks stream))), Returned)"
    using assms(2) by (simp add: generateQuizQuestionsStream_def split_beta candidate_def)
  show "effects (fst (generateQuizQuestionsStream parse stream)) =
           concat (map (candidate parse) (segs @ [trailing]))"
    by (simp add: gen fa)
  show "snd (generateQuizQuestionsStream parse stream) = Returned"
    by (simp add: gen)
qed

text \<open>Every text is delimited in this way, and in one way only.\<close>

lemma delimited_exists: "\<exists>segs trailing. delimited segs trailing whole"
proof (induction "length whole" arbitrary: whole rule: less_induct)
  case less
  show ?case
  proof (cases "string_includes whole DELIMITER")
    case True
    then obtain pre rest where t: "whole = pre @ DELIMITER @ rest" and seg: "segment pre"
      by (rule first_delimiter)
    have "length rest < length whole" by (simp add: t DELIMITER_def)
    from less [OF this] obtain segs trailing where "delimited segs trailing rest" by blast
    with seg have "delimited (pre # segs) trailing whole"
      by (simp add: delimited_def t)
    then show ?thesis by blast
  next
    case False
    then have "delimited [] whole whole" by (simp add: delimited_def)
    then show ?thesis by blast
  qed
qed

lemma delimited_unique:
  "delimited segs trailing whole \<Longrightarrow> delimited segs' trailing' whole \<Longrightarrow>
   segs = segs' \<and> trailing = trailing'"
proof (induction segs arbitrary: segs' whole)
  case Nil
  then have w: "whole = trailing" "\<not> string_includes whole DELIMITER"
    by (simp_all add: delimited_def)
  show ?case
  proof (cases segs')
    case Nil
    with Nil.prems(2) w show ?thesis by (simp add: delimited_def)
  next
    case (Cons s' rest')
    with Nil.prems(2) have "whole = s' @ DELIMITER @ (concat (map (\<lambda>s. s @ DELIMITER) rest') @ trailing')"
      by (simp add: delimited_def)
    then have "string_includes whole DELIMITER"
      by (simp only: includes_delimited)
    with w show ?thesis by simp
  qed
next
  case (Cons s segs)
  let ?r = "concat (map (\<lambda>s. s @ DELIMITER) segs) @ trailing"
  from Cons.prems(1) have w: "whole = s @ DELIMITER @ ?r" and seg: "segment s"
    and dr: "delimited segs trailing ?r"
    by (simp_all add: delimited_def)
  have inc: "string_includes whole DELIMITER"
    unfolding w by (rule includes_delimited)
  have i: "indexOf whole DELIMITER = int (length s)"
    unfolding w using seg by (rule segment_indexOf)
  show ?case
  proof (cases segs')
    case Nil
    with Cons.prems(2) inc show ?thesis by (simp add: delimited_def)
  next
    case (Cons s' rest')
    let ?r' = "concat (map (\<lambda>s. s @ DELIMITER) rest') @ trailing'"
    from Cons.prems(2) Cons have w': "whole = s' @ DELIMITER @ ?r'" and seg': "segment s'"
      and dr': "delimited rest' trailing' ?r'"
      by (simp_all add: delimited_def)
    have "indexOf whole DELIMITER = int (length s')"
      unfolding w' using seg' by (rule segment_indexOf)
    with i have l: "length s = length s'" by simp
    with w w' have s: "s = s'" by (metis append_eq_append_conv)
    with w w' have "?r = ?r'" by simp
    with dr' have "delimited rest' trailing' ?r" by simp
    with Cons.IH [OF dr] have "segs = rest' \<and> trailing = trailing'" by blast
    with s Cons show ?thesis by simp
  qed
qed

section \<open>What a run yields\<close>

lemma yields_append: "yields (xs @ ys) = yields xs @ yields ys"
  by (induction xs rule: yields.induct) simp_all

lemma parse_attempts_append: "parse_attempts (xs @ ys) = parse_attempts xs @ parse_attempts ys"
  by (induction xs rule: parse_attempts.induct) simp_all

lemma console_errors_append: "console_errors (xs @ ys) = console_errors xs @ console_errors ys"
  by (induction xs rule: console_errors.induct) simp_all

lemma yields_effects: "yields (effects evs) = yields evs"
  by (induction evs rule: yields.induct) simp_all

lemma parse_attempts_effects: "parse_attempts (effects evs) = parse_attempts evs"
  by (induction evs rule: parse_attempts.induct) simp_all

lemma console_errors_effects: "console_errors (effects evs) = console_errors evs"
  by (induction evs rule: console_errors.induct) simp_all

lemma parse_attempts_candidates:
  "parse_attempts (concat (map (candidate parse) xs)) = filter (\<lambda>s. s \<noteq> []) (map trim xs)"
  by (induction xs) (simp_all add: parse_attempts_append candidate_def split: option.splits)

lemma yields_candidates:
  "yields (concat (map (candidate parse) xs)) =
     List.map_filter parse (filter (\<lambda>s. s \<noteq> []) (map trim xs))"
  by (induction xs) (simp_all add: yields_append candidate_def map_filter_simps split: option.splits)

lemma console_errors_candidates:
  "console_errors (concat (map (candidate parse) xs)) =
     filter (\<lambda>s. parse s = None) (filter (\<lambda>s. s \<noteq> []) (map trim xs))"
  by (induction xs) (simp_all add: console_errors_append candidate_def split: option.splits)

lemma generate_batch:
  "effects (fst (generateQuizQuestionsStream parse stream)) =
     effects (fst (while_includes parse (concat (chunks stream)))) @
     (case failure stream of
        None \<Rightarrow> candidate parse (snd (while_includes parse (concat (chunks stream))))
      | Some e \<Rightarrow> [])"
  "snd (generateQuizQuestionsStream parse stream) =
     (case failure stream of None \<Rightarrow> Returned | Some e \<Rightarrow> Threw e)"
  using for_await_batch [OF not_includes_Nil, of parse "chunks stream"]
  by (simp_all add: generateQuizQuestionsStream_def split_beta candidate_def split: option.splits)

lemma length_map_filter_split:
  "length (List.map_filter f xs) + length (filter (\<lambda>x. f x = None) xs) = length xs"
  by (induction xs) (simp_all add: map_filter_simps split: option.splits)

lemma JSON_parse_Nil: "JSON_parse [] = None"
  by (simp add: JSON_parse_def)

lemma map_Some_map_filter: "map Some (List.map_filter f xs) = filter (\<lambda>r. r \<noteq> None) (map f xs)"
  by (induction xs) (simp_all add: map_filter_simps split: option.splits)

lemma filter_parse_nonblank:
  "parse [] = None \<Longrightarrow>
   filter (\<lambda>r. r \<noteq> None) (map parse (filter (\<lambda>s. s \<noteq> []) (map trim xs))) =
   filter (\<lambda>r. r \<noteq> None) (map (\<lambda>s. parse (trim s)) xs)"
  by (induction xs) simp_all

lemma filter_map_all_Some:
  "\<forall>j<length xs. h (xs ! j) \<noteq> None \<Longrightarrow> filter (\<lambda>r. r \<noteq> None) (map h xs) = map h xs"
proof (induction xs)
  case Nil
  then show ?case by simp
next
  case (Cons x xs)
  from Cons.prems have "h ((x # xs) ! 0) \<noteq> None" by blast
  moreover have "\<forall>j<length xs. h (xs ! j) \<noteq> None"
  proof (intro allI impI)
    fix j assume "j < length xs"
    then have "Suc j < length (x # xs)" by simp
    with Cons.prems have "h ((x # xs) ! Suc j) \<noteq> None" by blast
    then show "h (xs ! j) \<noteq> None" by simp
  qed
  ultimately show ?case using Cons.IH by simp
qed

lemma filter_map_one_None:
  "i < length xs \<Longrightarrow> h (xs ! i) = None \<Longrightarrow>
   \<forall>j<length xs. j \<noteq> i \<longrightarrow> h (xs ! j) \<noteq> None \<Longrightarrow>
   filter (\<lambda>r. r \<noteq> None) (map h xs) = map h (take i xs @ drop (Suc i) xs)"
proof (induction xs arbitrary: i)
  case Nil
  then show ?case by simp
next
  case (Cons x xs)
  show ?case
  proof (cases i)
    case 0
    have "\<forall>j<length xs. h (xs ! j) \<noteq> None"
    proof (intro allI impI)
      fix j assume "j < length xs"
      then have "Suc j < length (x # xs)" "Suc j \<noteq> i" using 0 by simp_all
      with Cons.prems(3) have "h ((x # xs) ! Suc j) \<noteq> None" by blast
      then show "h (xs ! j) \<noteq> None" by simp
    qed
    then have "filter (\<lambda>r. r \<noteq> None) (map h xs) = map h xs"
      by (rule filter_map_all_Some)
    with Cons.prems(2) 0 show ?thesis by simp
  next
    case (Suc k)
    have k: "k < length xs" "h (xs ! k) = None"
      using Cons.prems(1,2) Suc by simp_all
    have "\<forall>j<length xs. j \<noteq> k \<longrightarrow> h (xs ! j) \<noteq> None"
    proof (intro allI impI)
      fix j assume "j < length xs" "j \<noteq> k"
      then have "Suc j < length (x # xs)" "Suc j \<noteq> i" using Suc by simp_all
      with Cons.prems(3) have "h ((x # xs) ! Suc j) \<noteq> None" by blast
      then show "h (xs ! j) \<noteq> None" by simp
    qed
    with k have IH: "filter (\<lambda>r. r \<noteq> None) (map h xs) = map h (take k xs @ drop (Suc k) xs)"
      by (rule Cons.IH)
    have "0 < length (x # xs)" "0 \<noteq> i" using Suc by simp_all
    with Cons.prems(3) have "h ((x # xs) ! 0) \<noteq> None" by blast
    then have "h x \<noteq> None" by simp
    with IH Suc show ?thesis by simp
  qed
qed

lemma in_set_map_filter: "y \<in> set (List.map_filter f xs) \<longleftrightarrow> (\<exists>x\<in>set xs. f x = Some y)"
  by (induction xs) (auto simp: map_filter_simps split: option.splits)

section \<open>The buffer invariant\<close>

lemma received_append: "received (xs @ ys) = received xs @ received ys"
  by (induction xs rule: received.induct) simp_all

lemma splits_append: "splits (xs @ ys) = splits xs + splits ys"
  by (induction xs rule: splits.induct) simp_all

lemma snapshots_append:
  "snapshots r n (xs @ ys) =
     snapshots r n xs @ snapshots (r @ received xs) (n + splits xs) ys"
  by (induction r n xs rule: snapshots.induct) simp_all

lemma candidate_quiet:
  "snapshots r n (candidate parse s) = []" "received (candidate parse s) = []"
  "splits (candidate parse s) = 0"
  by (simp_all add: candidate_def split: option.splits)

lemma unconsumed_split:
  assumes "unconsumed r n (pre @ DELIMITER @ rest)" and "segment pre"
  shows "unconsumed r (Suc n) rest"
proof -
  from assms(1) obtain segs where s: "length segs = n" "list_all segment segs"
    "r = concat (map (\<lambda>s. s @ DELIMITER) segs) @ pre @ DELIMITER @ rest"
    unfolding unconsumed_def by blast
  have "length (segs @ [pre]) = Suc n" using s(1) by simp
  moreover have "list_all segment (segs @ [pre])" using s(2) assms(2) by simp
  moreover have "r = concat (map (\<lambda>s. s @ DELIMITER) (segs @ [pre])) @ rest"
    using s(3) by simp
  ultimately show ?thesis unfolding unconsumed_def by blast
qed

lemma unconsumed_append: "unconsumed r n b \<Longrightarrow> unconsumed (r @ c) n (b @ c)"
  unfolding unconsumed_def by auto

lemma while_includes_snapshots:
  "unconsumed r n b0 \<Longrightarrow>
   (\<forall>(r', n', b)\<in>set (snapshots r n (fst (while_includes parse b0))). unconsumed r' n' b) \<and>
   unconsumed r (n + splits (fst (while_includes parse b0))) (snd (while_includes parse b0)) \<and>
   received (fst (while_includes parse b0)) = []"
proof (induction "length b0" arbitrary: b0 n rule: less_induct)
  case less
  show ?case
  proof (cases "string_includes b0 DELIMITER")
    case True
    then obtain pre rest where b0: "b0 = pre @ DELIMITER @ rest" and seg: "segment pre"
      by (rule first_delimiter)
    have len: "length rest < length b0" by (simp add: b0 DELIMITER_def)
    have u: "unconsumed r (Suc n) rest"
      using less.prems seg unfolding b0 by (rule unconsumed_split)
    note IH = less.hyps [OF len u]
    have w: "while_includes parse b0 =
           (Split rest # candidate parse pre @ fst (while_includes parse rest),
            snd (while_includes parse rest))"
      unfolding b0 using seg by (rule while_includes_delimiter)
    show ?thesis
      using IH u by (simp add: w snapshots_append candidate_quiet received_append splits_append)
  next
    case False
    with less.prems show ?thesis by (simp add: while_includes_none)
  qed
qed

lemma for_await_snapshots:
  "unconsumed r n b0 \<Longrightarrow>
   (\<forall>(r', n', b)\<in>set (snapshots r n (fst (for_await parse b0 cs))). unconsumed r' n' b)"
proof (induction cs arbitrary: r n b0)
  case Nil
  then show ?case by simp
next
  case (Cons c cs)
  let ?w = "while_includes parse (b0 @ c)"
  have u: "unconsumed (r @ c) n (b0 @ c)"
    using Cons.prems by (rule unconsumed_append)
  note W = while_includes_snapshots [OF u, of parse]
  have IH: "\<forall>(r', n', b)\<in>set (snapshots (r @ c) (n + splits (fst ?w)) (fst (for_await parse (snd ?w) cs))).
              unconsumed r' n' b"
    using W by (intro Cons.IH) simp
  have fa: "fst (for_await parse b0 (c # cs)) =
      Chunk c # Appended (b0 @ c) # fst ?w @ fst (for_await parse (snd ?w) cs)"
    by (simp add: split_beta Let_def)
  show ?case
    unfolding fa using u W IH by (auto simp: snapshots_append)
qed

lemma unconsumed_Nil: "unconsumed [] 0 []"
  by (simp add: unconsumed_def)

lemma generate_snapshots:
  "\<forall>(r, n, b)\<in>set (snapshots [] 0 (fst (generateQuizQuestionsStream parse stream))). unconsumed r n b"
proof -
  have "snapshots [] 0 (fst (generateQuizQuestionsStream parse stream)) =
        snapshots [] 0 (fst (for_await parse [] (chunks stream)))"
    by (simp add: generateQuizQuestionsStream_def split_beta snapshots_append split: option.splits)
  then show ?thesis
    using for_await_snapshots [OF unconsumed_Nil, of parse "chunks stream"] by simp
qed

section \<open>Runs of the application\<close>

lemma foldl_questions:
  "questions (foldl (\<lambda>s q. s\<lparr>questions := questions s @ [q]\<rparr>) st qs) = questions st @ qs"
  by (induction qs arbitrary: st) simp_all

lemma foldl_other:
  "quizState (foldl (\<lambda>s q. s\<lparr>questions := questions s @ [q]\<rparr>) st qs) = quizState st"
  "isKeySet (foldl (\<lambda>s q. s\<lparr>questions := questions s @ [q]\<rparr>) st qs) = isKeySet st"
  "isCheckingKey (foldl (\<lambda>s q. s\<lparr>questions := questions s @ [q]\<rparr>) st qs) = isCheckingKey st"
  "error (foldl (\<lambda>s q. s\<lparr>questions := questions s @ [q]\<rparr>) st qs) = error st"
  by (induction qs arbitrary: st) simp_all

lemma generate_failure:
  "failure stream = Some err \<Longrightarrow>
   generateQuizQuestionsStream parse stream = (fst (for_await parse [] (chunks stream)), Threw err)"
  by (simp add: generateQuizQuestionsStream_def split_beta)

lemma ui_step_answered:
  "isAnswered crd \<Longrightarrow> ui_step (OptionClick option) (st, crd) = ((st, crd), None)"
  by (simp add: handleOptionClick_def)

lemma ui_step_invariant:
  assumes "ui_step e s = (s', call)"
  shows "answered_count s' = answered_count s + (case call of Some c \<Rightarrow> 1 | None \<Rightarrow> 0) \<and>
         score (fst s') = score (fst s) + (case call of Some True \<Rightarrow> 1 | _ \<Rightarrow> 0)"
proof (cases s)
  case (Pair st crd)
  show ?thesis
  proof (cases e)
    case (OptionClick option)
    with assms Pair show ?thesis
      by (auto simp: answered_count_def handleOptionClick_def handleAnswer_def Let_def
          split: if_splits)
  next
    case NextClick
    with assms Pair show ?thesis
      by (auto simp: answered_count_def handleNext_def mounted_def Let_def split: if_splits)
  next
    case (QuestionArrived q)
    with assms Pair show ?thesis
      by (auto simp: answered_count_def)
  qed
qed

lemma ui_run_invariant:
  "ui_run evs s = (s', calls) \<Longrightarrow>
   answered_count s' = answered_count s + length calls \<and>
   score (fst s') = score (fst s) + length (filter id calls)"
proof (induction evs arbitrary: s s' calls)
  case Nil
  then show ?case by simp
next
  case (Cons e es)
  obtain s1 call where 1: "ui_step e s = (s1, call)" by (cases "ui_step e s")
  obtain s2 calls2 where 2: "ui_run es s1 = (s2, calls2)" by (cases "ui_run es s1")
  from Cons.prems 1 2 have r: "s' = s2" "calls = (case call of Some c \<Rightarrow> [c] | None \<Rightarrow> []) @ calls2"
    by simp_all
  note a = ui_step_invariant [OF 1]
  note b = Cons.IH [OF 2]
  show ?case
  proof (cases call)
    case None
    with a b r show ?thesis by simp
  next
    case (Some c)
    with a b r show ?thesis by (cases c) simp_all
  qed
qed

lemma option_clicks_once:
  "list_all is_option_click evs \<Longrightarrow> ui_run evs (st, crd) = (s', calls) \<Longrightarrow>
   length calls \<le> (if isAnswered crd then 0 else 1)"
proof (induction evs arbitrary: st crd s' calls)
  case Nil
  then show ?case by simp
next
  case (Cons e es)
  from Cons.prems(1) obtain option where e: "e = OptionClick option" and es: "list_all is_option_click es"
    by (cases e) simp_all
  obtain st1 crd1 call where 1: "ui_step e (st, crd) = ((st1, crd1), call)"
    by (metis prod.exhaust)
  obtain s2 calls2 where 2: "ui_run es (st1, crd1) = (s2, calls2)" by (cases "ui_run es (st1, crd1)")
  from Cons.prems(2) 1 2 have r: "calls = (case call of Some c \<Rightarrow> [c] | None \<Rightarrow> []) @ calls2"
    by simp
  note b = Cons.IH [OF es 2]
  from 1 e have "(call = None \<and> isAnswered crd1 = isAnswered crd) \<or>
                 (call \<noteq> None \<and> \<not> isAnswered crd \<and> isAnswered crd1)"
    by (auto simp: handleOptionClick_def Let_def split: if_splits)
  with b r show ?case by (auto split: if_splits)
qed

section \<open>Claims about the streaming parser\<close>

text \<open>
  C4. Two streams whose chunks concatenate to the same text, and that end the same way,
  make the generator yield the same records in the same order and end the same way:
  where the chunk boundaries fall, also inside a delimiter, makes no difference.
\<close>

theorem chunking_is_irrelevant:
  assumes "concat (chunks s1) = concat (chunks s2)" and "failure s1 = failure s2"
  shows "yields (fst (generateQuizQuestionsStream parse s1)) =
           yields (fst (generateQuizQuestionsStream parse s2)) \<and>
         snd (generateQuizQuestionsStream parse s1) = snd (generateQuizQuestionsStream parse s2)"
proof -
  have "effects (fst (generateQuizQuestionsStream parse s1)) =
          effects (fst (generateQuizQuestionsStream parse s2))"
    by (simp only: generate_batch assms)
  then have "yields (effects (fst (generateQuizQuestionsStream parse s1))) =
          yields (effects (fst (generateQuizQuestionsStream parse s2)))"
    by simp
  then have "yields (fst (generateQuizQuestionsStream parse s1)) =
          yields (fst (generateQuizQuestionsStream parse s2))"
    by (simp only: yields_effects)
  moreover have "snd (generateQuizQuestionsStream parse s1) = snd (generateQuizQuestionsStream parse s2)"
    by (simp only: generate_batch assms)
  ultimately show ?thesis by simp
qed

text \<open>
  One chunk against one chunk per code unit, which cuts the delimiter at every position.
\<close>

theorem chunking_is_irrelevant_witness:
  \<open>concat (chunks \<lparr>chunks = [''{"question":"Q1"}---QML_QUIZ_DELIMITER--- [2] ''], failure = None :: unit option\<rparr>) =
   concat (chunks \<lparr>chunks = map (\<lambda>c. [c]) ''{"question":"Q1"}---QML_QUIZ_DELIMITER--- [2] '', failure = None :: unit option\<rparr>) \<and>
   yields (fst (generateQuizQuestionsStream JSON_parse
      \<lparr>chunks = [''{"question":"Q1"}---QML_QUIZ_DELIMITER--- [2] ''], failure = None :: unit option\<rparr>)) =
   yields (fst (generateQuizQuestionsStream JSON_parse
      \<lparr>chunks = map (\<lambda>c. [c]) ''{"question":"Q1"}---QML_QUIZ_DELIMITER--- [2] '', failure = None :: unit option\<rparr>)) \<and>
   yields (fst (generateQuizQuestionsStream JSON_parse
      \<lparr>chunks = map (\<lambda>c. [c]) ''{"question":"Q1"}---QML_QUIZ_DELIMITER--- [2] '', failure = None :: unit option\<rparr>)) =
   [JObject [(code_units ''question'', JString (code_units ''Q1''))], JArray [JNumber ''2'']]\<close>
proof -
  let ?A = \<open>\<lparr>chunks = [''{"question":"Q1"}---QML_QUIZ_DELIMITER--- [2] ''], failure = None :: unit option\<rparr>\<close>
  let ?B = \<open>\<lparr>chunks = map (\<lambda>c. [c]) ''{"question":"Q1"}---QML_QUIZ_DELIMITER--- [2] '', failure = None :: unit option\<rparr>\<close>
  have c: "concat (chunks ?A) = concat (chunks ?B)" by simp
  have f: "failure ?A = failure ?B" by simp
  have v: "yields (fst (generateQuizQuestionsStream JSON_parse ?B)) =
    [JObject [(code_units ''question'', JString (code_units ''Q1''))], JArray [JNumber ''2'']]"
    by code_simp
  from chunking_is_irrelevant [OF c f, of JSON_parse] c v show ?thesis by simp
qed

text \<open>
  C5. When the text of the stream is delimited into \<open>segs\<close> and \<open>trailing\<close>, the
  generator calls the parser on the trimmed candidates that are not empty, each once and in
  the order of the text, and the records it yields are the results of the calls that
  succeed, in that order. Every delimiter that is consumed is the first one of the buffer:
  that is what makes each of \<open>segs\<close> a \<^const>\<open>segment\<close>.
\<close>

theorem records_in_stream_order:
  assumes "delimited segs trailing (concat (chunks stream))" and "failure stream = None"
  shows "parse_attempts (fst (generateQuizQuestionsStream parse stream)) =
           filter (\<lambda>s. s \<noteq> []) (map trim (segs @ [trailing])) \<and>
         yields (fst (generateQuizQuestionsStream parse stream)) =
           List.map_filter parse (filter (\<lambda>s. s \<noteq> []) (map trim (segs @ [trailing])))"
proof -
  have e: "effects (fst (generateQuizQuestionsStream parse stream)) =
             concat (map (candidate parse) (segs @ [trailing]))"
    using assms by (rule generate_effects)
  have "parse_attempts (effects (fst (generateQuizQuestionsStream parse stream))) =
          filter (\<lambda>s. s \<noteq> []) (map trim (segs @ [trailing]))"
    unfolding e by (rule parse_attempts_candidates)
  moreover have "yields (effects (fst (generateQuizQuestionsStream parse stream))) =
          List.map_filter parse (filter (\<lambda>s. s \<noteq> []) (map trim (segs @ [trailing])))"
    unfolding e by (rule yields_candidates)
  ultimately show ?thesis
    by (simp only: parse_attempts_effects yields_effects simp_thms)
qed

text \<open>Four candidates and the trailing text over three chunks; one is blank, one is not JSON.\<close>

theorem records_in_stream_order_witness:
  \<open>delimited [''[1]'', '' nope '', ''   '', ''[3] ''] '' [4]''
     (concat (chunks \<lparr>chunks = [''[1]---QML_QUIZ_DELIMITER--- no'', ''pe ---QML_QUIZ_DELIMITER---   ---QML_QUIZ_'',
                        ''DELIMITER---[3] ---QML_QUIZ_DELIMITER--- [4]''], failure = None :: unit option\<rparr>)) \<and>
   parse_attempts (fst (generateQuizQuestionsStream JSON_parse
      \<lparr>chunks = [''[1]---QML_QUIZ_DELIMITER--- no'', ''pe ---QML_QUIZ_DELIMITER---   ---QML_QUIZ_'',
                        ''DELIMITER---[3] ---QML_QUIZ_DELIMITER--- [4]''], failure = None :: unit option\<rparr>)) =
     [''[1]'', ''nope'', ''[3]'', ''[4]''] \<and>
   yields (fst (generateQuizQuestionsStream JSON_parse
      \<lparr>chunks = [''[1]---QML_QUIZ_DELIMITER--- no'', ''pe ---QML_QUIZ_DELIMITER---   ---QML_QUIZ_'',
                        ''DELIMITER---[3] ---QML_QUIZ_DELIMITER--- [4]''], failure = None :: unit option\<rparr>)) =
     [JArray [JNumber ''1''], JArray [JNumber ''3''], JArray [JNumber ''4'']]\<close>
proof -
  let ?S = \<open>\<lparr>chunks = [''[1]---QML_QUIZ_DELIMITER--- no'', ''pe ---QML_QUIZ_DELIMITER---   ---QML_QUIZ_'',
                        ''DELIMITER---[3] ---QML_QUIZ_DELIMITER--- [4]''], failure = None :: unit option\<rparr>\<close>
  have d: "delimited [''[1]'', '' nope '', ''   '', ''[3] ''] '' [4]'' (concat (chunks ?S))"
    by code_simp
  have f: "failure ?S = None" by simp
  have a: "filter (\<lambda>s. s \<noteq> []) (map trim ([''[1]'', '' nope '', ''   '', ''[3] ''] @ ['' [4]''])) =
             [''[1]'', ''nope'', ''[3]'', ''[4]'']"
    by code_simp
  have y: "List.map_filter JSON_parse [''[1]'', ''nope'', ''[3]'', ''[4]''] =
             [JArray [JNumber ''1''], JArray [JNumber ''3''], JArray [JNumber ''4'']]"
    by code_simp
  from records_in_stream_order [OF d f, of JSON_parse] d show ?thesis
    unfolding a y by simp
qed

text \<open>
  C3, as stated, fails: a text of two delimited segments, the second one blank, and no
  trailing content gets one call of the parser, not two.
\<close>

theorem parse_attempts_count_counterexample:
  \<open>delimited [''[1]'', ''  ''] []
     (concat (chunks \<lparr>chunks = [''[1]'', ''---QML_QUIZ_DELIMITER---'', ''  '', ''---QML_QUIZ_DELIMITER---''],
                      failure = None :: unit option\<rparr>)) \<and>
   length (parse_attempts (fst (generateQuizQuestionsStream JSON_parse
     \<lparr>chunks = [''[1]'', ''---QML_QUIZ_DELIMITER---'', ''  '', ''---QML_QUIZ_DELIMITER---''],
      failure = None :: unit option\<rparr>))) \<noteq>
   length [''[1]'', ''  ''] + (if trim [] \<noteq> [] then 1 else 0)\<close>
  by code_simp

text \<open>
  C3, amended. The number of calls of the parser is the number of delimited segments that
  are not empty after trimming, plus one when the trailing text is not empty after
  trimming, wherever the chunk boundaries fall (the hypothesis is about the concatenation
  only). Each call ends in a yield or in a console error; a candidate that is empty after
  trimming gets no call, no record and no error.
\<close>

theorem one_attempt_per_nonblank_segment:
  assumes "delimited segs trailing (concat (chunks stream))" and "failure stream = None"
  shows "length (parse_attempts (fst (generateQuizQuestionsStream parse stream))) =
           length (filter (\<lambda>s. trim s \<noteq> []) segs) + (if trim trailing \<noteq> [] then 1 else 0) \<and>
         length (yields (fst (generateQuizQuestionsStream parse stream))) +
         length (console_errors (fst (generateQuizQuestionsStream parse stream))) =
           length (parse_attempts (fst (generateQuizQuestionsStream parse stream)))"
proof -
  let ?evs = "fst (generateQuizQuestionsStream parse stream)"
  let ?texts = "filter (\<lambda>s. s \<noteq> []) (map trim (segs @ [trailing]))"
  have e: "effects ?evs = concat (map (candidate parse) (segs @ [trailing]))"
    using assms by (rule generate_effects)
  have a: "parse_attempts ?evs = ?texts"
    using parse_attempts_candidates [of parse "segs @ [trailing]"]
    by (simp only: e [symmetric] parse_attempts_effects)
  have y: "yields ?evs = List.map_filter parse ?texts"
    using yields_candidates [of parse "segs @ [trailing]"]
    by (simp only: e [symmetric] yields_effects)
  have c: "console_errors ?evs = filter (\<lambda>s. parse s = None) ?texts"
    using console_errors_candidates [of parse "segs @ [trailing]"]
    by (simp only: e [symmetric] console_errors_effects)
  have "length ?texts = length (filter (\<lambda>s. trim s \<noteq> []) segs) + (if trim trailing \<noteq> [] then 1 else 0)"
    by (simp add: filter_map comp_def)
  moreover have "length (yields ?evs) + length (console_errors ?evs) = length ?texts"
    unfolding y c by (rule length_map_filter_split)
  ultimately show ?thesis unfolding a by simp
qed

text \<open>Two delimited segments, one of them blank, and a trailing text: two calls.\<close>

theorem one_attempt_per_nonblank_segment_witness:
  \<open>delimited [''[1]'', ''  ''] ''x''
     (concat (chunks \<lparr>chunks = [''[1]'', ''---QML_QUIZ_DELIMITER---'', ''  '', ''---QML_QUIZ_DELIMITER---x''],
                      failure = None :: unit option\<rparr>)) \<and>
   length (parse_attempts (fst (generateQuizQuestionsStream JSON_parse
     \<lparr>chunks = [''[1]'', ''---QML_QUIZ_DELIMITER---'', ''  '', ''---QML_QUIZ_DELIMITER---x''],
      failure = None :: unit option\<rparr>))) = 2 \<and>
   length (yields (fst (generateQuizQuestionsStream JSON_parse
     \<lparr>chunks = [''[1]'', ''---QML_QUIZ_DELIMITER---'', ''  '', ''---QML_QUIZ_DELIMITER---x''],
      failure = None :: unit option\<rparr>))) +
   length (console_errors (fst (generateQuizQuestionsStream JSON_parse
     \<lparr>chunks = [''[1]'', ''---QML_QUIZ_DELIMITER---'', ''  '', ''---QML_QUIZ_DELIMITER---x''],
      failure = None :: unit option\<rparr>))) = 2\<close>
proof -
  let ?S = \<open>\<lparr>chunks = [''[1]'', ''---QML_QUIZ_DELIMITER---'', ''  '', ''---QML_QUIZ_DELIMITER---x''],
      failure = None :: unit option\<rparr>\<close>
  have d: "delimited [''[1]'', ''  ''] ''x'' (concat (chunks ?S))"
    by code_simp
  have f: "failure ?S = None" by simp
  have n: "length (filter (\<lambda>s. trim s \<noteq> []) [''[1]'', ''  '']) + (if trim ''x'' \<noteq> [] then 1 else 0) = (2::nat)"
    by code_simp
  from one_attempt_per_nonblank_segment [OF d f, of JSON_parse] d show ?thesis
    unfolding n by simp
qed

text \<open>
  C6. When the stream ends, the buffer holds the trailing text, the whole of it; it is
  handled as one candidate, in the way the loop handles a delimited one: nothing when it
  is empty after trimming, else one call of the parser and a yield or a console error. The
  generator then returns. A stream of no chunks yields nothing and returns.
\<close>

theorem end_of_stream:
  assumes "delimited segs trailing (concat (chunks stream))" and "failure stream = None"
  shows "snd (for_await parse [] (chunks stream)) = trailing \<and>
         effects (fst (for_await parse [] (chunks stream))) = concat (map (candidate parse) segs) \<and>
         generateQuizQuestionsStream parse stream =
           (fst (for_await parse [] (chunks stream)) @
            (if trim trailing \<noteq> [] then
               Parse (trim trailing) #
               (case parse (trim trailing) of
                  Some q \<Rightarrow> [Yield q]
                | None \<Rightarrow> [ConsoleError (trim trailing)])
             else []),
            Returned) \<and>
         generateQuizQuestionsStream parse \<lparr>chunks = [], failure = None :: 'e option\<rparr> =
           ([], Returned)"
proof -
  from assms(1) have whole: "concat (chunks stream) = concat (map (\<lambda>s. s @ DELIMITER) segs) @ trailing"
    and segs: "list_all segment segs" and tr: "\<not> string_includes trailing DELIMITER"
    by (simp_all add: delimited_def)
  have b: "snd (for_await parse [] (chunks stream)) = trailing"
    using for_await_batch [OF not_includes_Nil, of parse "chunks stream"]
      while_includes_delimited [OF segs tr, of parse]
    by (simp add: whole)
  have e: "effects (fst (for_await parse [] (chunks stream))) = concat (map (candidate parse) segs)"
    using for_await_batch [OF not_includes_Nil, of parse "chunks stream"]
      while_includes_delimited [OF segs tr, of parse]
    by (simp add: whole)
  have g: "generateQuizQuestionsStream parse stream =
           (fst (for_await parse [] (chunks stream)) @
            (if trim trailing \<noteq> [] then
               Parse (trim trailing) #
               (case parse (trim trailing) of
                  Some q \<Rightarrow> [Yield q]
                | None \<Rightarrow> [ConsoleError (trim trailing)])
             else []),
            Returned)"
    using assms(2) b by (simp add: generateQuizQuestionsStream_def split_beta)
  have z: "generateQuizQuestionsStream parse \<lparr>chunks = [], failure = None :: 'e option\<rparr> = ([], Returned)"
    by (simp add: generateQuizQuestionsStream_def trim_def)
  from b e g z show ?thesis by simp
qed

text \<open>A stream that ends without a delimiter after its last record.\<close>

theorem end_of_stream_witness:
  \<open>delimited [''garbage-not-json''] ''{"question":"Q2"} ''
     (concat (chunks \<lparr>chunks = [''garbage-not-json'', ''---QML_QUIZ_DELIMITER---'', ''{"question":"Q2"} ''],
                      failure = None :: unit option\<rparr>)) \<and>
   snd (for_await JSON_parse [] [''garbage-not-json'', ''---QML_QUIZ_DELIMITER---'', ''{"question":"Q2"} '']) =
     ''{"question":"Q2"} '' \<and>
   yields (fst (generateQuizQuestionsStream JSON_parse
     \<lparr>chunks = [''garbage-not-json'', ''---QML_QUIZ_DELIMITER---'', ''{"question":"Q2"} ''],
      failure = None :: unit option\<rparr>)) =
     [JObject [(code_units ''question'', JString (code_units ''Q2''))]] \<and>
   snd (generateQuizQuestionsStream JSON_parse
     \<lparr>chunks = [''garbage-not-json'', ''---QML_QUIZ_DELIMITER---'', ''{"question":"Q2"} ''],
      failure = None :: unit option\<rparr>) = Returned\<close>
proof -
  let ?S = \<open>\<lparr>chunks = [''garbage-not-json'', ''---QML_QUIZ_DELIMITER---'', ''{"question":"Q2"} ''],
      failure = None :: unit option\<rparr>\<close>
  have d: \<open>delimited [''garbage-not-json''] ''{"question":"Q2"} '' (concat (chunks ?S))\<close>
    by code_simp
  have f: "failure ?S = None" by simp
  have y: \<open>yields (fst (for_await JSON_parse [] (chunks ?S)) @
            (if trim ''{"question":"Q2"} '' \<noteq> [] then
               Parse (trim ''{"question":"Q2"} '') #
               (case JSON_parse (trim ''{"question":"Q2"} '') of
                  Some q \<Rightarrow> [Yield q]
                | None \<Rightarrow> [ConsoleError (trim ''{"question":"Q2"} '')])
             else [])) = [JObject [(code_units ''question'', JString (code_units ''Q2''))]]\<close>
    by code_simp
  note t = end_of_stream [OF d f, of JSON_parse]
  have b: \<open>snd (for_await JSON_parse [] [''garbage-not-json'', ''---QML_QUIZ_DELIMITER---'', ''{"question":"Q2"} '']) =
     ''{"question":"Q2"} ''\<close>
    using t [THEN conjunct1] by (simp only: upstream.simps)
  note g = t [THEN conjunct2, THEN conjunct2, THEN conjunct1]
  have r: "snd (generateQuizQuestionsStream JSON_parse ?S) = Returned"
    by (subst g) (simp only: snd_conv)
  have v: \<open>yields (fst (generateQuizQuestionsStream JSON_parse ?S)) =
     [JObject [(code_units ''question'', JString (code_units ''Q2''))]]\<close>
    by (subst g) (simp only: fst_conv y)
  from d b v r show ?thesis by (intro conjI)
qed

text \<open>
  C1. The segments of a stream are its delimited segments and, when it is not empty after
  trimming, the trailing text. Take a parser that fails on the empty text, as
  \<^verbatim>\<open>JSON.parse\<close> does. When it fails on exactly one of the segments, the generator
  yields the records of the others, in order and one fewer than there are segments, and
  returns: the failure is not thrown and does not end the sequence.
\<close>

theorem one_malformed_segment:
  assumes "delimited segs trailing (concat (chunks stream))" and "failure stream = None"
    and "parse [] = None"
    and "all_segs = segs @ (if trim trailing = [] then [] else [trailing])"
    and "i < length all_segs"
    and "parse (trim (all_segs ! i)) = None"
    and "\<forall>j<length all_segs. j \<noteq> i \<longrightarrow> parse (trim (all_segs ! j)) \<noteq> None"
  shows "map Some (yields (fst (generateQuizQuestionsStream parse stream))) =
           map (\<lambda>s. parse (trim s)) (take i all_segs @ drop (Suc i) all_segs) \<and>
         length (yields (fst (generateQuizQuestionsStream parse stream))) = length all_segs - 1 \<and>
         snd (generateQuizQuestionsStream parse stream) = Returned"
proof -
  let ?evs = "fst (generateQuizQuestionsStream parse stream)"
  let ?h = "\<lambda>s. parse (trim s)"
  have e: "effects ?evs = concat (map (candidate parse) (segs @ [trailing]))"
    using assms(1,2) by (rule generate_effects)
  have y: "yields ?evs = List.map_filter parse (filter (\<lambda>s. s \<noteq> []) (map trim (segs @ [trailing])))"
    using yields_candidates [of parse "segs @ [trailing]"]
    by (simp only: e [symmetric] yields_effects)
  have "filter (\<lambda>s. s \<noteq> []) (map trim (segs @ [trailing])) = filter (\<lambda>s. s \<noteq> []) (map trim all_segs)"
    by (simp add: assms(4))
  then have "map Some (yields ?evs) =
      filter (\<lambda>r. r \<noteq> None) (map parse (filter (\<lambda>s. s \<noteq> []) (map trim all_segs)))"
    by (simp add: y map_Some_map_filter)
  also have "\<dots> = filter (\<lambda>r. r \<noteq> None) (map ?h all_segs)"
    using assms(3) by (rule filter_parse_nonblank)
  also have "\<dots> = map ?h (take i all_segs @ drop (Suc i) all_segs)"
    using assms(5,6,7) by (rule filter_map_one_None)
  finally have m: "map Some (yields ?evs) = map ?h (take i all_segs @ drop (Suc i) all_segs)"
    by simp
  have "length (map Some (yields ?evs)) = length all_segs - 1"
    unfolding m using assms(5) by simp
  then have "length (yields ?evs) = length all_segs - 1" by simp
  moreover have "snd (generateQuizQuestionsStream parse stream) = Returned"
    using assms(1,2) by (rule generate_effects)
  ultimately show ?thesis using m by simp
qed

text \<open>Three segments, the second one malformed and cut by a chunk boundary.\<close>

theorem one_malformed_segment_witness:
  \<open>delimited [''{"question":"Q1"}'', ''garbage-not-json''] ''{"question":"Q3"}''
     (concat (chunks \<lparr>chunks = [''{"question":"Q1"}---QML_QUIZ_DELIMITER---garbage'',
                      ''-not-json---QML_QUIZ_DELIMITER---{"question":"Q3"}''],
                      failure = None :: unit option\<rparr>)) \<and>
   JSON_parse (trim ''garbage-not-json'') = None \<and>
   yields (fst (generateQuizQuestionsStream JSON_parse
     \<lparr>chunks = [''{"question":"Q1"}---QML_QUIZ_DELIMITER---garbage'',
                      ''-not-json---QML_QUIZ_DELIMITER---{"question":"Q3"}''],
      failure = None :: unit option\<rparr>)) =
     [JObject [(code_units ''question'', JString (code_units ''Q1''))],
      JObject [(code_units ''question'', JString (code_units ''Q3''))]] \<and>
   snd (generateQuizQuestionsStream JSON_parse
     \<lparr>chunks = [''{"question":"Q1"}---QML_QUIZ_DELIMITER---garbage'',
                      ''-not-json---QML_QUIZ_DELIMITER---{"question":"Q3"}''],
      failure = None :: unit option\<rparr>) = Returned\<close>
proof -
  let ?S = \<open>\<lparr>chunks = [''{"question":"Q1"}---QML_QUIZ_DELIMITER---garbage'',
                      ''-not-json---QML_QUIZ_DELIMITER---{"question":"Q3"}''],
      failure = None :: unit option\<rparr>\<close>
  let ?L = \<open>[''{"question":"Q1"}'', ''garbage-not-json'', ''{"question":"Q3"}'']\<close>
  have d: \<open>delimited [''{"question":"Q1"}'', ''garbage-not-json''] ''{"question":"Q3"}''
     (concat (chunks ?S))\<close>
    by code_simp
  have f: "failure ?S = None" by simp
  have l: \<open>?L = [''{"question":"Q1"}'', ''garbage-not-json''] @
     (if trim ''{"question":"Q3"}'' = [] then [] else [''{"question":"Q3"}''])\<close>
    by code_simp
  have i: "1 < length ?L" by simp
  have b: "JSON_parse (trim (?L ! 1)) = None" by code_simp
  have p0: "JSON_parse (trim (?L ! 0)) \<noteq> None" by code_simp
  have p2: "JSON_parse (trim (?L ! 2)) \<noteq> None" by code_simp
  have o: "\<forall>j<length ?L. j \<noteq> 1 \<longrightarrow> JSON_parse (trim (?L ! j)) \<noteq> None"
  proof (intro allI impI)
    fix j :: nat assume "j < length ?L" "j \<noteq> 1"
    then have "j = 0 \<or> j = 2" by auto
    with p0 p2 show "JSON_parse (trim (?L ! j)) \<noteq> None" by blast
  qed
  note t = one_malformed_segment [OF d f JSON_parse_Nil l i b o]
  have m: \<open>map (\<lambda>s. JSON_parse (trim s)) (take 1 ?L @ drop (Suc 1) ?L) =
     map Some [JObject [(code_units ''question'', JString (code_units ''Q1''))],
      JObject [(code_units ''question'', JString (code_units ''Q3''))]]\<close>
    by code_simp
  have y: \<open>yields (fst (generateQuizQuestionsStream JSON_parse ?S)) =
     [JObject [(code_units ''question'', JString (code_units ''Q1''))],
      JObject [(code_units ''question'', JString (code_units ''Q3''))]]\<close>
    using t [THEN conjunct1] unfolding m by (simp only: inj_map_eq_map [OF inj_Some])
  have g: "JSON_parse (trim ''garbage-not-json'') = None" by code_simp
  from d g y t [THEN conjunct2, THEN conjunct2] show ?thesis by (intro conjI)
qed

text \<open>
  C8. At every assignment of the buffer in a run, after an append and after a split, the
  buffer is the text received so far without its consumed front: the front is as many
  segments, each with the delimiter after it, as there were splits so far. With no split
  so far the buffer is all of the text received; after a split it is the text that
  follows the last consumed delimiter.
\<close>

theorem buffer_is_unconsumed_suffix:
  assumes "fst (generateQuizQuestionsStream parse stream) = before @ ev # after"
    and "buffer_of ev = Some b"
  shows "\<exists>segs. length segs = splits (before @ [ev]) \<and> list_all segment segs \<and>
           received before = concat (map (\<lambda>s. s @ DELIMITER) segs) @ b"
proof -
  have "(received before, splits (before @ [ev]), b) \<in>
          set (snapshots [] 0 (before @ ev # after))"
    using assms(2) by (cases ev) (simp_all add: snapshots_append splits_append)
  with generate_snapshots [of parse stream] have "unconsumed (received before) (splits (before @ [ev])) b"
    unfolding assms(1) by blast
  then show ?thesis unfolding unconsumed_def .
qed

text \<open>The buffer right after the split of a delimiter that two chunks brought.\<close>

theorem buffer_is_unconsumed_suffix_witness:
  \<open>fst (generateQuizQuestionsStream JSON_parse
          \<lparr>chunks = [''[1]---QML'', ''_QUIZ_DELIMITER---[2'', '']''], failure = None :: unit option\<rparr>) =
     [Chunk ''[1]---QML'', Appended ''[1]---QML'',
      Chunk ''_QUIZ_DELIMITER---[2'', Appended ''[1]---QML_QUIZ_DELIMITER---[2''] @
     Split ''[2'' #
     [Parse ''[1]'', Yield (JArray [JNumber ''1'']), Chunk '']'', Appended ''[2]'',
      Parse ''[2]'', Yield (JArray [JNumber ''2''])] \<and>
   (\<exists>segs. length segs = 1 \<and> list_all segment segs \<and>
      ''[1]---QML_QUIZ_DELIMITER---[2'' = concat (map (\<lambda>s. s @ DELIMITER) segs) @ ''[2'')\<close>
proof -
  let ?S = \<open>\<lparr>chunks = [''[1]---QML'', ''_QUIZ_DELIMITER---[2'', '']''], failure = None :: unit option\<rparr>\<close>
  let ?before = \<open>[Chunk ''[1]---QML'', Appended ''[1]---QML'',
      Chunk ''_QUIZ_DELIMITER---[2'', Appended ''[1]---QML_QUIZ_DELIMITER---[2''] :: json event list\<close>
  let ?after = \<open>[Parse ''[1]'', Yield (JArray [JNumber ''1'']), Chunk '']'', Appended ''[2]'',
      Parse ''[2]'', Yield (JArray [JNumber ''2''])]\<close>
  have e: "fst (generateQuizQuestionsStream JSON_parse ?S) = ?before @ Split ''[2'' # ?after"
    by code_simp
  have b: "buffer_of (Split ''[2'' :: json event) = Some ''[2''" by simp
  have n: "splits (?before @ [Split ''[2'']) = 1" by simp
  have r: "received ?before = ''[1]---QML_QUIZ_DELIMITER---[2''" by simp
  from buffer_is_unconsumed_suffix [OF e b] e show ?thesis
    unfolding n r by (intro conjI)
qed

text \<open>
  C2, as stated, fails: a candidate that is well-formed JSON and has one of the four
  required members only is yielded as it is.
\<close>

theorem shape_not_checked_counterexample:
  \<open>yields (fst (generateQuizQuestionsStream JSON_parse
      \<lparr>chunks = [''{"question":"Q1"}'', ''---QML_QUIZ_DELIMITER---''], failure = None :: unit option\<rparr>)) =
     [JObject [(code_units ''question'', JString (code_units ''Q1''))]] \<and>
   \<not> has_required_fields (JObject [(code_units ''question'', JString (code_units ''Q1''))])\<close>
  by code_simp

text \<open>
  C2, amended. The generator hands every candidate that is not empty after trimming to
  \<^verbatim>\<open>JSON.parse\<close>; when that throws, nothing is yielded for the candidate; when it
  returns, the value is yielded as it is. So the records yielded are the JSON values of
  the candidates that are well-formed JSON, whatever members they have: nothing compares
  them with the shape of \<^verbatim>\<open>QuizQuestion\<close>.
\<close>

theorem yields_every_JSON_value:
  assumes "delimited segs trailing (concat (chunks stream))" and "failure stream = None"
  shows "q \<in> set (yields (fst (generateQuizQuestionsStream JSON_parse stream))) \<longleftrightarrow>
           (\<exists>s\<in>set (segs @ [trailing]). JSON_parse (trim s) = Some q)"
proof -
  let ?evs = "fst (generateQuizQuestionsStream JSON_parse stream)"
  have e: "effects ?evs = concat (map (candidate JSON_parse) (segs @ [trailing]))"
    using assms by (rule generate_effects)
  have y: "yields ?evs =
      List.map_filter JSON_parse (filter (\<lambda>s. s \<noteq> []) (map trim (segs @ [trailing])))"
    using yields_candidates [of JSON_parse "segs @ [trailing]"]
    by (simp only: e [symmetric] yields_effects)
  have "q \<in> set (yields ?evs) \<longleftrightarrow>
      (\<exists>t\<in>set (filter (\<lambda>s. s \<noteq> []) (map trim (segs @ [trailing]))). JSON_parse t = Some q)"
    unfolding y by (rule in_set_map_filter)
  also have "\<dots> \<longleftrightarrow> (\<exists>s\<in>set (segs @ [trailing]). trim s \<noteq> [] \<and> JSON_parse (trim s) = Some q)"
    by (simp only: set_filter set_map) blast
  also have "\<dots> \<longleftrightarrow> (\<exists>s\<in>set (segs @ [trailing]). JSON_parse (trim s) = Some q)"
    using JSON_parse_Nil by (metis option.distinct(1))
  finally show ?thesis .
qed

text \<open>
  A record with one member is yielded though it is no \<^verbatim>\<open>QuizQuestion\<close>; a candidate
  with an unclosed brace is not.
\<close>

theorem yields_every_JSON_value_witness:
  \<open>delimited [''{"question":"Q1"}'', ''{"question":"Q2"''] ''''
     (concat (chunks \<lparr>chunks = [''{"question":"Q1"}---QML_QUIZ_DELIMITER---{"question":"Q2"---QML_QUIZ_DELIMITER---''],
        failure = None :: unit option\<rparr>)) \<and>
   JObject [(code_units ''question'', JString (code_units ''Q1''))] \<in>
     set (yields (fst (generateQuizQuestionsStream JSON_parse
       \<lparr>chunks = [''{"question":"Q1"}---QML_QUIZ_DELIMITER---{"question":"Q2"---QML_QUIZ_DELIMITER---''],
        failure = None :: unit option\<rparr>))) \<and>
   \<not> is_QuizQuestion (JObject [(code_units ''question'', JString (code_units ''Q1''))]) \<and>
   JSON_parse (trim ''{"question":"Q2"'') = None\<close>
proof -
  let ?S = \<open>\<lparr>chunks = [''{"question":"Q1"}---QML_QUIZ_DELIMITER---{"question":"Q2"---QML_QUIZ_DELIMITER---''],
        failure = None :: unit option\<rparr>\<close>
  let ?q = \<open>JObject [(code_units ''question'', JString (code_units ''Q1''))]\<close>
  have d: \<open>delimited [''{"question":"Q1"}'', ''{"question":"Q2"''] '''' (concat (chunks ?S))\<close>
    by code_simp
  have f: "failure ?S = None" by simp
  have p: \<open>JSON_parse (trim ''{"question":"Q1"}'') = Some ?q\<close> by code_simp
  then have x: \<open>\<exists>s\<in>set ([''{"question":"Q1"}'', ''{"question":"Q2"''] @ ['''']). JSON_parse (trim s) = Some ?q\<close>
    by simp
  have n: "\<not> is_QuizQuestion ?q" by code_simp
  have m: \<open>JSON_parse (trim ''{"question":"Q2"'') = None\<close> by code_simp
  from yields_every_JSON_value [OF d f, of ?q] x have "?q \<in> set (yields (fst (generateQuizQuestionsStream JSON_parse ?S)))"
    by (rule iffD2)
  with d n m show ?thesis by (intro conjI)
qed

section \<open>Claims about the application\<close>

text \<open>
  C7. When the stream fails, the generator throws the failure after the records it has
  yielded. \<^verbatim>\<open>startQuiz\<close> then holds exactly those records, and its \<^verbatim>\<open>catch\<close> block
  changes the questions of no state. When the message of the failure contains
  \<^verbatim>\<open>API key not valid\<close> the application is idle with no key set and shows the key
  setup with its own message; on every other failure it is in the error state, where it
  shows the message of the failure (given that a key was set).
\<close>

theorem upstream_failure:
  assumes "failure stream = Some err"
  shows "snd (generateQuizQuestionsStream parse stream) = Threw err \<and>
         questions (startQuiz parse stream st) =
           yields (fst (generateQuizQuestionsStream parse stream)) \<and>
         questions (startQuiz_catch err s) = questions s \<and>
         (if string_includes (errorMessage err) ''API key not valid''
          then quizState (startQuiz parse stream st) = Idle \<and>
               \<not> isKeySet (startQuiz parse stream st) \<and>
               renderContent (startQuiz parse stream st) =
                 (if isCheckingKey st then Verifying
                  else ApiKeySetup
                         (Some ''Your API key appears to be invalid. Please select a new one to continue.''))
          else quizState (startQuiz parse stream st) = Error \<and>
               isKeySet (startQuiz parse stream st) = isKeySet st \<and>
               renderContent (startQuiz parse stream st) =
                 (if isCheckingKey st then Verifying
                  else if \<not> isKeySet st then ApiKeySetup (Some (errorMessage err))
                  else ErrorScreen (Some (errorMessage err))))"
proof -
  note g = generate_failure [OF assms, of parse]
  let ?st2 = "foldl (\<lambda>s q. s\<lparr>questions := questions s @ [q]\<rparr>)
                (st\<lparr>quizState := Loading, questions := [], currentQuestionIndex := 0,
                    score := 0, error := None\<rparr>)
                (yields (fst (for_await parse [] (chunks stream))))"
  have s: "startQuiz parse stream st = startQuiz_catch err ?st2"
    by (simp add: startQuiz_def g)
  have 1: "snd (generateQuizQuestionsStream parse stream) = Threw err"
    by (simp add: g)
  have c: "questions (startQuiz_catch err s) = questions s" for s :: "'c App"
    by (simp add: startQuiz_catch_def)
  have 2: "questions (startQuiz parse stream st) = yields (fst (generateQuizQuestionsStream parse stream))"
    by (simp add: s c foldl_questions g)
  show ?thesis
  proof (cases "string_includes (errorMessage err) ''API key not valid''")
    case True
    then have "quizState (startQuiz parse stream st) = Idle"
      "\<not> isKeySet (startQuiz parse stream st)"
      "renderContent (startQuiz parse stream st) =
                 (if isCheckingKey st then Verifying
                  else ApiKeySetup
                         (Some ''Your API key appears to be invalid. Please select a new one to continue.''))"
      by (simp_all add: s startQuiz_catch_def renderContent_def foldl_other)
    with True 1 2 c show ?thesis by simp
  next
    case False
    then have "quizState (startQuiz parse stream st) = Error"
      "isKeySet (startQuiz parse stream st) = isKeySet st"
      "renderContent (startQuiz parse stream st) =
                 (if isCheckingKey st then Verifying
                  else if \<not> isKeySet st then ApiKeySetup (Some (errorMessage err))
                  else ErrorScreen (Some (errorMessage err)))"
      by (simp_all add: s startQuiz_catch_def renderContent_def foldl_other)
    with False 1 2 c show ?thesis by simp
  qed
qed

text \<open>A stream that fails after one record, with an invalid key and with a network failure.\<close>

theorem upstream_failure_witness:
  \<open>failure \<lparr>chunks = [''{"question":"Q1"}---QML_QUIZ_DELIMITER---{"que''],
            failure = Some (ErrorInstance ''API key not valid. Please pass a valid API key.'')\<rparr> =
     Some (ErrorInstance ''API key not valid. Please pass a valid API key.'') \<and>
   questions (startQuiz JSON_parse
     \<lparr>chunks = [''{"question":"Q1"}---QML_QUIZ_DELIMITER---{"que''],
      failure = Some (ErrorInstance ''API key not valid. Please pass a valid API key.'')\<rparr>
     \<lparr>quizState = Idle, questions = [], currentQuestionIndex = 0, score = 0, error = None,
      isKeySet = True, isCheckingKey = False\<rparr>) =
     [JObject [(code_units ''question'', JString (code_units ''Q1''))]] \<and>
   renderContent (startQuiz JSON_parse
     \<lparr>chunks = [''{"question":"Q1"}---QML_QUIZ_DELIMITER---{"que''],
      failure = Some (ErrorInstance ''API key not valid. Please pass a valid API key.'')\<rparr>
     \<lparr>quizState = Idle, questions = [], currentQuestionIndex = 0, score = 0, error = None,
      isKeySet = True, isCheckingKey = False\<rparr>) =
     ApiKeySetup (Some ''Your API key appears to be invalid. Please select a new one to continue.'') \<and>
   questions (startQuiz JSON_parse
     \<lparr>chunks = [''{"question":"Q1"}---QML_QUIZ_DELIMITER---{"que''],
      failure = Some (ErrorInstance ''Failed to fetch'')\<rparr>
     \<lparr>quizState = Idle, questions = [], currentQuestionIndex = 0, score = 0, error = None,
      isKeySet = True, isCheckingKey = False\<rparr>) =
     [JObject [(code_units ''question'', JString (code_units ''Q1''))]] \<and>
   renderContent (startQuiz JSON_parse
     \<lparr>chunks = [''{"question":"Q1"}---QML_QUIZ_DELIMITER---{"que''],
      failure = Some (ErrorInstance ''Failed to fetch'')\<rparr>
     \<lparr>quizState = Idle, questions = [], currentQuestionIndex = 0, score = 0, error = None,
      isKeySet = True, isCheckingKey = False\<rparr>) =
     ErrorScreen (Some ''Failed to fetch'')\<close>
proof -
  let ?C = \<open>\<lparr>chunks = [''{"question":"Q1"}---QML_QUIZ_DELIMITER---{"que''],
      failure = Some (ErrorInstance ''API key not valid. Please pass a valid API key.'')\<rparr>\<close>
  let ?G = \<open>\<lparr>chunks = [''{"question":"Q1"}---QML_QUIZ_DELIMITER---{"que''],
      failure = Some (ErrorInstance ''Failed to fetch'')\<rparr>\<close>
  let ?st = \<open>\<lparr>quizState = Idle, questions = [] :: json list, currentQuestionIndex = 0, score = 0,
      error = None, isKeySet = True, isCheckingKey = False\<rparr>\<close>
  have fc: "failure ?C = Some (ErrorInstance ''API key not valid. Please pass a valid API key.'')"
    by simp
  have fg: "failure ?G = Some (ErrorInstance ''Failed to fetch'')"
    by simp
  have ic: "string_includes (errorMessage (ErrorInstance ''API key not valid. Please pass a valid API key.''))
              ''API key not valid''"
    by code_simp
  have ig: "\<not> string_includes (errorMessage (ErrorInstance ''Failed to fetch'')) ''API key not valid''"
    by code_simp
  have mg: "errorMessage (ErrorInstance ''Failed to fetch'') = ''Failed to fetch''"
    by (simp add: errorMessage_def)
  have yc: \<open>yields (fst (generateQuizQuestionsStream JSON_parse ?C)) =
     [JObject [(code_units ''question'', JString (code_units ''Q1''))]]\<close>
    by code_simp
  have yg: \<open>yields (fst (generateQuizQuestionsStream JSON_parse ?G)) =
     [JObject [(code_units ''question'', JString (code_units ''Q1''))]]\<close>
    by code_simp
  note tc = upstream_failure [OF fc, of JSON_parse ?st ?st]
  note tg = upstream_failure [OF fg, of JSON_parse ?st ?st]
  have 1: \<open>questions (startQuiz JSON_parse ?C ?st) =
     [JObject [(code_units ''question'', JString (code_units ''Q1''))]]\<close>
    using tc yc by simp
  have 2: \<open>renderContent (startQuiz JSON_parse ?C ?st) =
     ApiKeySetup (Some ''Your API key appears to be invalid. Please select a new one to continue.'')\<close>
    using tc ic by simp
  have 3: \<open>questions (startQuiz JSON_parse ?G ?st) =
     [JObject [(code_units ''question'', JString (code_units ''Q1''))]]\<close>
    using tg yg by simp
  have 4: \<open>renderContent (startQuiz JSON_parse ?G ?st) = ErrorScreen (Some ''Failed to fetch'')\<close>
    using tg ig mg by simp
  from fc 1 2 3 4 show ?thesis by (intro conjI)
qed

text \<open>
  C9. A click on an option of an answered card changes nothing and calls nothing. Any
  number of clicks on the options of one card make at most one \<^verbatim>\<open>onAnswer\<close> call and
  raise the score by at most one. From the start of a quiz, after any run of events, the
  number of calls made is the number of questions answered, the score is the number of
  calls that said "correct", and so the score is at most the number of questions answered.
\<close>

theorem answered_once:
  "(isAnswered crd \<longrightarrow> ui_step (OptionClick option) (st, crd) = ((st, crd), None)) \<and>
   (list_all is_option_click clicks \<and> ui_run clicks (st, crd) = ((st1, crd1), calls1) \<longrightarrow>
      length calls1 \<le> 1 \<and> score st1 \<le> score st + 1) \<and>
   (score st0 = 0 \<and> currentQuestionIndex st0 = 0 \<and>
    ui_run evs (st0, mounted) = ((st', crd'), calls) \<longrightarrow>
      length calls = currentQuestionIndex st' + (if isAnswered crd' then 1 else 0) \<and>
      score st' = length (filter id calls) \<and>
      score st' \<le> currentQuestionIndex st' + (if isAnswered crd' then 1 else 0))"
proof (intro conjI impI)
  assume "isAnswered crd"
  then show "ui_step (OptionClick option) (st, crd) = ((st, crd), None)"
    by (rule ui_step_answered)
next
  assume a: "list_all is_option_click clicks \<and> ui_run clicks (st, crd) = ((st1, crd1), calls1)"
  then have "length calls1 \<le> (if isAnswered crd then 0 else 1)"
    using option_clicks_once by blast
  then show l: "length calls1 \<le> 1" by (simp split: if_splits)
  from a have "score (fst (st1, crd1)) = score (fst (st, crd)) + length (filter id calls1)"
    using ui_run_invariant by blast
  then have "score st1 = score st + length (filter id calls1)"
    by (simp only: fst_conv)
  moreover have "length (filter id calls1) \<le> length calls1" by (rule length_filter_le)
  ultimately show "score st1 \<le> score st + 1" using l by linarith
next
  assume a: "score st0 = 0 \<and> currentQuestionIndex st0 = 0 \<and>
    ui_run evs (st0, mounted) = ((st', crd'), calls)"
  then have r: "ui_run evs (st0, mounted) = ((st', crd'), calls)" by simp
  note i = ui_run_invariant [OF r]
  from i a show n: "length calls = currentQuestionIndex st' + (if isAnswered crd' then 1 else 0)"
    by (simp add: answered_count_def mounted_def)
  from i a show s: "score st' = length (filter id calls)" by simp
  have "length (filter id calls) \<le> length calls" by (rule length_filter_le)
  with n s show "score st' \<le> currentQuestionIndex st' + (if isAnswered crd' then 1 else 0)"
    by linarith
qed

text \<open>Two questions, the first answered right, the second wrong, each clicked twice.\<close>

theorem answered_once_witness:
  "isAnswered \<lparr>selectedOption = Some ''A'', isAnswered = True\<rparr> \<and>
   ui_step (OptionClick ''B'') (\<lparr>quizState = Active, questions = [\<lparr>question = ''Q1'', code_snippet = None, options = [''A'', ''B''], correctAnswer = ''A'', explanation = ''E1''\<rparr>, \<lparr>question = ''Q2'', code_snippet = None, options = [''A'', ''B''], correctAnswer = ''B'', explanation = ''E2''\<rparr>], currentQuestionIndex = 0, score = 0, error = None, isKeySet = True, isCheckingKey = False\<rparr>, \<lparr>selectedOption = Some ''A'', isAnswered = True\<rparr>) = ((\<lparr>quizState = Active, questions = [\<lparr>question = ''Q1'', code_snippet = None, options = [''A'', ''B''], correctAnswer = ''A'', explanation = ''E1''\<rparr>, \<lparr>question = ''Q2'', code_snippet = None, options = [''A'', ''B''], correctAnswer = ''B'', explanation = ''E2''\<rparr>], currentQuestionIndex = 0, score = 0, error = None, isKeySet = True, isCheckingKey = False\<rparr>, \<lparr>selectedOption = Some ''A'', isAnswered = True\<rparr>), None) \<and>
   list_all is_option_click [OptionClick ''A'', OptionClick ''B'', OptionClick ''A''] \<and>
   ui_run [OptionClick ''A'', OptionClick ''B'', OptionClick ''A''] (\<lparr>quizState = Active, questions = [\<lparr>question = ''Q1'', code_snippet = None, options = [''A'', ''B''], correctAnswer = ''A'', explanation = ''E1''\<rparr>, \<lparr>question = ''Q2'', code_snippet = None, options = [''A'', ''B''], correctAnswer = ''B'', explanation = ''E2''\<rparr>], currentQuestionIndex = 0, score = 0, error = None, isKeySet = True, isCheckingKey = False\<rparr>, mounted) = ((\<lparr>quizState = Active, questions = [\<lparr>question = ''Q1'', code_snippet = None, options = [''A'', ''B''], correctAnswer = ''A'', explanation = ''E1''\<rparr>, \<lparr>question = ''Q2'', code_snippet = None, options = [''A'', ''B''], correctAnswer = ''B'', explanation = ''E2''\<rparr>], currentQuestionIndex = 0, score = 1, error = None, isKeySet = True, isCheckingKey = False\<rparr>, \<lparr>selectedOption = Some ''A'', isAnswered = True\<rparr>), [True]) \<and>
   score \<lparr>quizState = Active, questions = [\<lparr>question = ''Q1'', code_snippet = None, options = [''A'', ''B''], correctAnswer = ''A'', explanation = ''E1''\<rparr>, \<lparr>question = ''Q2'', code_snippet = None, options = [''A'', ''B''], correctAnswer = ''B'', explanation = ''E2''\<rparr>], currentQuestionIndex = 0, score = 1, error = None, isKeySet = True, isCheckingKey = False\<rparr> \<le> score \<lparr>quizState = Active, questions = [\<lparr>question = ''Q1'', code_snippet = None, options = [''A'', ''B''], correctAnswer = ''A'', explanation = ''E1''\<rparr>, \<lparr>question = ''Q2'', code_snippet = None, options = [''A'', ''B''], correctAnswer = ''B'', explanation = ''E2''\<rparr>], currentQuestionIndex = 0, score = 0, error = None, isKeySet = True, isCheckingKey = False\<rparr> + 1 \<and>
   score \<lparr>quizState = Active, questions = [\<lparr>question = ''Q1'', code_snippet = None, options = [''A'', ''B''], correctAnswer = ''A'', explanation = ''E1''\<rparr>, \<lparr>question = ''Q2'', code_snippet = None, options = [''A'', ''B''], correctAnswer = ''B'', explanation = ''E2''\<rparr>], currentQuestionIndex = 0, score = 0, error = None, isKeySet = True, isCheckingKey = False\<rparr> = 0 \<and> currentQuestionIndex \<lparr>quizState = Active, questions = [\<lparr>question = ''Q1'', code_snippet = None, options = [''A'', ''B''], correctAnswer = ''A'', explanation = ''E1''\<rparr>, \<lparr>question = ''Q2'', code_snippet = None, options = [''A'', ''B''], correctAnswer = ''B'', explanation = ''E2''\<rparr>], currentQuestionIndex = 0, score = 0, error = None, isKeySet = True, isCheckingKey = False\<rparr> = 0 \<and>
   ui_run [OptionClick ''A'', OptionClick ''B'', NextClick, OptionClick ''X'', OptionClick ''B'', NextClick] (\<lparr>quizState = Active, questions = [\<lparr>question = ''Q1'', code_snippet = None, options = [''A'', ''B''], correctAnswer = ''A'', explanation = ''E1''\<rparr>, \<lparr>question = ''Q2'', code_snippet = None, options = [''A'', ''B''], correctAnswer = ''B'', explanation = ''E2''\<rparr>], currentQuestionIndex = 0, score = 0, error = None, isKeySet = True, isCheckingKey = False\<rparr>, mounted) = ((\<lparr>quizState = Finished, questions = [\<lparr>question = ''Q1'', code_snippet = None, options = [''A'', ''B''], correctAnswer = ''A'', explanation = ''E1''\<rparr>, \<lparr>question = ''Q2'', code_snippet = None, options = [''A'', ''B''], correctAnswer = ''B'', explanation = ''E2''\<rparr>], currentQuestionIndex = 1, score = 1, error = None, isKeySet = True, isCheckingKey = False\<rparr>, \<lparr>selectedOption = Some ''X'', isAnswered = True\<rparr>), [True, False]) \<and>
   score \<lparr>quizState = Finished, questions = [\<lparr>question = ''Q1'', code_snippet = None, options = [''A'', ''B''], correctAnswer = ''A'', explanation = ''E1''\<rparr>, \<lparr>question = ''Q2'', code_snippet = None, options = [''A'', ''B''], correctAnswer = ''B'', explanation = ''E2''\<rparr>], currentQuestionIndex = 1, score = 1, error = None, isKeySet = True, isCheckingKey = False\<rparr> = length (filter id [True, False]) \<and>
   score \<lparr>quizState = Finished, questions = [\<lparr>question = ''Q1'', code_snippet = None, options = [''A'', ''B''], correctAnswer = ''A'', explanation = ''E1''\<rparr>, \<lparr>question = ''Q2'', code_snippet = None, options = [''A'', ''B''], correctAnswer = ''B'', explanation = ''E2''\<rparr>], currentQuestionIndex = 1, score = 1, error = None, isKeySet = True, isCheckingKey = False\<rparr> \<le> currentQuestionIndex \<lparr>quizState = Finished, questions = [\<lparr>question = ''Q1'', code_snippet = None, options = [''A'', ''B''], correctAnswer = ''A'', explanation = ''E1''\<rparr>, \<lparr>question = ''Q2'', code_snippet = None, options = [''A'', ''B''], correctAnswer = ''B'', explanation = ''E2''\<rparr>], currentQuestionIndex = 1, score = 1, error = None, isKeySet = True, isCheckingKey = False\<rparr> + (if isAnswered \<lparr>selectedOption = Some ''X'', isAnswered = True\<rparr> then 1 else 0)"
proof -
  let ?S0 = "\<lparr>quizState = Active, questions = [\<lparr>question = ''Q1'', code_snippet = None, options = [''A'', ''B''], correctAnswer = ''A'', explanation = ''E1''\<rparr>, \<lparr>question = ''Q2'', code_snippet = None, options = [''A'', ''B''], correctAnswer = ''B'', explanation = ''E2''\<rparr>], currentQuestionIndex = 0, score = 0, error = None, isKeySet = True, isCheckingKey = False\<rparr>"
  let ?S1 = "\<lparr>quizState = Active, questions = [\<lparr>question = ''Q1'', code_snippet = None, options = [''A'', ''B''], correctAnswer = ''A'', explanation = ''E1''\<rparr>, \<lparr>question = ''Q2'', code_snippet = None, options = [''A'', ''B''], correctAnswer = ''B'', explanation = ''E2''\<rparr>], currentQuestionIndex = 0, score = 1, error = None, isKeySet = True, isCheckingKey = False\<rparr>"
  let ?SF = "\<lparr>quizState = Finished, questions = [\<lparr>question = ''Q1'', code_snippet = None, options = [''A'', ''B''], correctAnswer = ''A'', explanation = ''E1''\<rparr>, \<lparr>question = ''Q2'', code_snippet = None, options = [''A'', ''B''], correctAnswer = ''B'', explanation = ''E2''\<rparr>], currentQuestionIndex = 1, score = 1, error = None, isKeySet = True, isCheckingKey = False\<rparr>"
  let ?CA = "\<lparr>selectedOption = Some ''A'', isAnswered = True\<rparr>"
  let ?CX = "\<lparr>selectedOption = Some ''X'', isAnswered = True\<rparr>"
  let ?CL = "[OptionClick ''A'', OptionClick ''B'', OptionClick ''A'']"
  let ?EV = "[OptionClick ''A'', OptionClick ''B'', NextClick, OptionClick ''X'', OptionClick ''B'', NextClick]"
  have a: "isAnswered ?CA" by simp
  have c: "list_all is_option_click ?CL" by simp
  have r1: "ui_run ?CL (?S0, mounted) = ((?S1, ?CA), [True])" by code_simp
  have z: "score ?S0 = 0" "currentQuestionIndex ?S0 = 0" by simp_all
  have r2: "ui_run ?EV (?S0, mounted) = ((?SF, ?CX), [True, False])" by code_simp
  note t1 = answered_once [where crd = "?CA" and option = "''B''" and st = "?S0"]
  note t2 = answered_once [where crd = mounted and st = "?S0" and clicks = "?CL" and
      ?st1.0 = "?S1" and ?crd1.0 = "?CA" and ?calls1.0 = "[True]"]
  note t3 = answered_once [where ?st0.0 = "?S0" and evs = "?EV" and st' = "?SF" and
      crd' = "?CX" and calls = "[True, False]"]
  from t1 a have 1: "ui_step (OptionClick ''B'') (?S0, ?CA) = ((?S0, ?CA), None)" by blast
  from t2 c r1 have 2: "score ?S1 \<le> score ?S0 + 1" by blast
  from t3 z r2 have 3: "score ?SF = length (filter id [True, False])" by blast
  from t3 z r2 have 4: "score ?SF \<le> currentQuestionIndex ?SF + (if isAnswered ?CX then 1 else 0)" by blast
  from a 1 c r1 2 z r2 3 4 show ?thesis by (intro conjI)
qed

text \<open>
  C10. When the maximum of the progress bar, or the total of the score summary, is zero,
  the percentage is zero, and no division takes place; when it is positive, the
  percentage is the product of the quotient and 100, rounded by \<^verbatim>\<open>Math.round\<close> in the
  summary.
\<close>

theorem percentages_guarded:
  "(max' = Finite 0 \<longrightarrow> ProgressBar_percentage fdiv fmul val max' = Finite 0) \<and>
   (greater_than_zero max' \<longrightarrow>
      ProgressBar_percentage fdiv fmul val max' = fmul (fdiv val max') (Finite 100)) \<and>
   (total' = Finite 0 \<longrightarrow> ScoreSummary_percentage fdiv fmul fround score' total' = Finite 0) \<and>
   (greater_than_zero total' \<longrightarrow>
      ScoreSummary_percentage fdiv fmul fround score' total' =
        fround (fmul (fdiv score' total') (Finite 100)))"
  by (simp add: ProgressBar_percentage_def ScoreSummary_percentage_def greater_than_zero_def)

text \<open>Three of four, and one of eight, which rounds up from 12.5.\<close>

theorem percentages_guarded_witness:
  "ProgressBar_percentage exact_divide exact_times (Finite 3) (Finite 0) = Finite 0 \<and>
   greater_than_zero (Finite 4) \<and>
   ProgressBar_percentage exact_divide exact_times (Finite 3) (Finite 4) = Finite 75 \<and>
   ScoreSummary_percentage exact_divide exact_times Math_round (Finite 0) (Finite 0) = Finite 0 \<and>
   greater_than_zero (Finite 8) \<and>
   ScoreSummary_percentage exact_divide exact_times Math_round (Finite 1) (Finite 8) = Finite 13"
proof -
  note t = percentages_guarded [of "Finite 0" exact_divide exact_times "Finite 3" "Finite 0"
      Math_round "Finite 0"]
  note u = percentages_guarded [of "Finite 4" exact_divide exact_times "Finite 3" "Finite 8"
      Math_round "Finite 1"]
  have g4: "greater_than_zero (Finite 4)" by (simp add: greater_than_zero_def)
  have g8: "greater_than_zero (Finite 8)" by (simp add: greater_than_zero_def)
  have p: "exact_times (exact_divide (Finite 3) (Finite 4)) (Finite 100) = Finite 75"
    by (simp add: exact_times_def exact_divide_def)
  have s: "Math_round (exact_times (exact_divide (Finite 1) (Finite 8)) (Finite 100)) = Finite 13"
  proof -
    have "\<lfloor>(1::real) / 8 * 100 + 1 / 2\<rfloor> = 13" by linarith
    then show ?thesis by (simp add: exact_times_def exact_divide_def Math_round_def)
  qed
  from t have 1: "ProgressBar_percentage exact_divide exact_times (Finite 3) (Finite 0) = Finite 0"
    by blast
  from t have 2: "ScoreSummary_percentage exact_divide exact_times Math_round (Finite 0) (Finite 0) = Finite 0"
    by blast
  from u g4 p have 3: "ProgressBar_percentage exact_divide exact_times (Finite 3) (Finite 4) = Finite 75"
    by simp
  from u g8 s have 4: "ScoreSummary_percentage exact_divide exact_times Math_round (Finite 1) (Finite 8) = Finite 13"
    by simp
  from 1 g4 3 2 g8 4 show ?thesis by (intro conjI)
qed

end
